theory Spec2Isabelle
  imports Complex_Main "HOL-Library.Multiset" "HOL-Library.List_Lexorder"
begin

section \<open>Strings\<close>

text \<open>
  A JavaScript string is a sequence of UTF-16 code units; a code unit is modelled by its
  number. \<open>js\<close> turns an ASCII literal into such a string, so that the literals of
  \<^verbatim>\<open>dartAnalysisPanel.ts\<close> can be written as they are in the source.
\<close>

type_synonym jsstring = "nat list"

definition js :: "string \<Rightarrow> jsstring" where
  "js s = map of_char s"

text \<open>The separator glyph of the text report, U+2022.\<close>

definition bullet :: nat where
  "bullet = 8226"

text \<open>
  ECMAScript's LineTerminator and WhiteSpace code units. The regular expression class
  \<^verbatim>\<open>\s\<close> and \<^verbatim>\<open>String.prototype.trim\<close> use their union, the class
  \<^verbatim>\<open>.\<close> (without the \<^verbatim>\<open>s\<close> flag) the complement of the first.
\<close>

definition isLineTerminator :: "nat \<Rightarrow> bool" where
  "isLineTerminator c = (c = 10 \<or> c = 13 \<or> c = 8232 \<or> c = 8233)"

definition isWhiteSpace :: "nat \<Rightarrow> bool" where
  "isWhiteSpace c =
     (c = 9 \<or> c = 11 \<or> c = 12 \<or> c = 32 \<or> c = 160 \<or> c = 5760 \<or> (8192 \<le> c \<and> c \<le> 8202)
      \<or> c = 8239 \<or> c = 8287 \<or> c = 12288 \<or> c = 65279)"

definition isSpace :: "nat \<Rightarrow> bool" where
  "isSpace c = (isWhiteSpace c \<or> isLineTerminator c)"

definition isDigit :: "nat \<Rightarrow> bool" where
  "isDigit c = (48 \<le> c \<and> c \<le> 57)"

definition trim :: "jsstring \<Rightarrow> jsstring" where
  "trim s = rev (dropWhile isSpace (rev (dropWhile isSpace s)))"

definition startsWith :: "jsstring \<Rightarrow> jsstring \<Rightarrow> bool" where
  "startsWith s p = (take (length p) s = p)"

definition endsWith :: "jsstring \<Rightarrow> jsstring \<Rightarrow> bool" where
  "endsWith s p = (length p \<le> length s \<and> drop (length s - length p) s = p)"

text \<open>
  \<^verbatim>\<open>s.split(c)\<close> for a one-character separator: the pieces between the separators, in
  order; the empty string gives one empty piece.
\<close>

fun split_on :: "nat \<Rightarrow> jsstring \<Rightarrow> jsstring list" where
  "split_on c [] = [[]]"
| "split_on c (x # xs) =
     (if x = c then [] # split_on c xs
      else (case split_on c xs of [] \<Rightarrow> [[x]] | w # ws \<Rightarrow> (x # w) # ws))"

fun join_with :: "jsstring \<Rightarrow> jsstring list \<Rightarrow> jsstring" where
  "join_with sep [] = []"
| "join_with sep [x] = x"
| "join_with sep (x # y # ys) = x @ sep @ join_with sep (y # ys)"

text \<open>
  \<^verbatim>\<open>toLowerCase\<close> on the letters A to Z. JavaScript also changes letters outside
  ASCII; none of them becomes one of the letters of the six labels that
  \<open>mapSeverity\<close> compares with, so the comparisons there come out the same.
\<close>

definition toLowerCase :: "jsstring \<Rightarrow> jsstring" where
  "toLowerCase s = map (\<lambda>c. if 65 \<le> c \<and> c \<le> 90 then c + 32 else c) s"

section \<open>The issue record and the severity mapper\<close>

datatype severity = Error | Warning | Info | Hint

text \<open>\<^verbatim>\<open>_mapSeverity\<close>, on a string.\<close>

definition mapSeverity :: "jsstring \<Rightarrow> severity" where
  "mapSeverity sev =
     (let lower = toLowerCase sev in
      if lower = js ''error'' \<or> lower = js ''fatal'' then Error
      else if lower = js ''warning'' \<or> lower = js ''warn'' then Warning
      else if lower = js ''info'' \<or> lower = js ''information'' then Info
      else Hint)"

section \<open>Paths\<close>

text \<open>
  \<^verbatim>\<open>path.relative\<close> is Node's, on a POSIX host: both paths are resolved to absolute
  paths against the working directory of the process (\<open>cwd\<close>, itself absolute), and the
  result climbs from the first to their common ancestor and descends to the second.
  A resolved path is kept as the list of its segments.
\<close>

definition isAbsolute :: "jsstring \<Rightarrow> bool" where
  "isAbsolute p = (case p of [] \<Rightarrow> False | c # _ \<Rightarrow> c = 47)"

definition normalizeStep :: "jsstring list \<Rightarrow> jsstring \<Rightarrow> jsstring list" where
  "normalizeStep segs seg =
     (if seg = [] \<or> seg = js ''.'' then segs
      else if seg = js ''..'' then butlast segs
      else segs @ [seg])"

definition normalizeSegments :: "jsstring list \<Rightarrow> jsstring list" where
  "normalizeSegments segs = foldl normalizeStep [] segs"

definition resolve :: "jsstring \<Rightarrow> jsstring \<Rightarrow> jsstring list" where
  "resolve cwd p =
     normalizeSegments (split_on 47
       (if p = [] then cwd else if isAbsolute p then p else cwd @ js ''/'' @ p))"

fun strip_common :: "jsstring list \<Rightarrow> jsstring list \<Rightarrow> jsstring list \<times> jsstring list" where
  "strip_common (x # xs) (y # ys) =
     (if x = y then strip_common xs ys else (x # xs, y # ys))"
| "strip_common xs ys = (xs, ys)"

definition path_relative :: "jsstring \<Rightarrow> jsstring \<Rightarrow> jsstring \<Rightarrow> jsstring" where
  "path_relative cwd from to =
     (if from = to then []
      else let f = resolve cwd from; t = resolve cwd to in
        if f = t then []
        else (case strip_common f t of
                (f', t') \<Rightarrow> join_with (js ''/'') (replicate (length f') (js ''..'') @ t')))"

text \<open>
  The Path Normalizer, as \<^verbatim>\<open>_parseIssue\<close> has it inline:
  \<^verbatim>\<open>file.startsWith(workspaceRoot) ? path.relative(workspaceRoot, file) : file\<close>.
\<close>

definition normalizePath :: "jsstring \<Rightarrow> jsstring \<Rightarrow> jsstring \<Rightarrow> jsstring" where
  "normalizePath cwd rawPath workspaceRoot =
     (if startsWith rawPath workspaceRoot then path_relative cwd workspaceRoot rawPath
      else rawPath)"

section \<open>JSON values and the JSON issue decoder\<close>

text \<open>
  What \<^verbatim>\<open>JSON.parse\<close> returns. A finite number is the exact value of the double (every
  finite double is a rational; both zeros are \<open>0\<close>); a literal beyond the largest double,
  such as \<^verbatim>\<open>1e999\<close>, parses to \<^verbatim>\<open>Infinity\<close> or \<^verbatim>\<open>-Infinity\<close>. An object lists its
  members as written; where a key is repeated the last one is the property.
\<close>

datatype json =
    JNull
  | JBool bool
  | JNum rat
  | JInfinity
  | JNegInfinity
  | JStr jsstring
  | JArr "json list"
  | JObj "(jsstring \<times> json) list"

datatype error = TypeError

text \<open>
  The fields of an issue as they are at run time: \<^verbatim>\<open>_parseIssue\<close> copies whatever value
  the payload holds into \<open>code\<close>, \<open>message\<close>, \<open>line\<close> and \<open>column\<close>.
\<close>

record issue =
  severity :: severity
  code :: json
  message :: json
  "file" :: jsstring
  line :: json
  column :: json

text \<open>
  Reading a property of a value that is not \<^verbatim>\<open>null\<close>: \<open>None\<close> is \<^verbatim>\<open>undefined\<close>.
  Arrays and primitives have none of the properties that the decoder reads.
\<close>

fun field :: "json \<Rightarrow> jsstring \<Rightarrow> json option" where
  "field (JObj kvs) k = map_of (rev kvs) k"
| "field _ k = None"

text \<open>Optional chaining \<^verbatim>\<open>v?.k\<close>.\<close>

fun opt_field :: "json option \<Rightarrow> jsstring \<Rightarrow> json option" where
  "opt_field None k = None"
| "opt_field (Some JNull) k = None"
| "opt_field (Some v) k = field v k"

fun truthy :: "json option \<Rightarrow> bool" where
  "truthy None = False"
| "truthy (Some JNull) = False"
| "truthy (Some (JBool b)) = b"
| "truthy (Some (JNum r)) = (r \<noteq> 0)"
| "truthy (Some JInfinity) = True"
| "truthy (Some JNegInfinity) = True"
| "truthy (Some (JStr s)) = (s \<noteq> [])"
| "truthy (Some (JArr xs)) = True"
| "truthy (Some (JObj kvs)) = True"

text \<open>\<^verbatim>\<open>a || b\<close>.\<close>

definition or_else :: "json option \<Rightarrow> json option \<Rightarrow> json option" where
  "or_else a b = (if truthy a then a else b)"

text \<open>
  \<^verbatim>\<open>_parseIssue\<close>. Reading a property of \<^verbatim>\<open>null\<close>, calling \<^verbatim>\<open>toLowerCase\<close> on a
  severity that is not a string and calling \<^verbatim>\<open>startsWith\<close> on a file that is not a
  string each throw a TypeError.
\<close>

definition parseIssue :: "jsstring \<Rightarrow> json \<Rightarrow> jsstring \<Rightarrow> error + issue" where
  "parseIssue cwd iss workspaceRoot =
     (if iss = JNull then Inl TypeError
      else (case or_else (field iss (js ''severity'')) (field iss (js ''level'')) of
        Some (JStr sev) \<Rightarrow>
          (case or_else (or_else (opt_field (field iss (js ''location'')) (js ''file''))
                                 (field iss (js ''file'')))
                        (Some (JStr [])) of
             Some (JStr f) \<Rightarrow>
               Inr \<lparr> severity = mapSeverity sev,
                     code = the (or_else (or_else (field iss (js ''code''))
                                                  (field iss (js ''errorCode'')))
                                         (Some (JStr (js ''unknown'')))),
                     message = the (or_else (or_else (field iss (js ''message''))
                                                     (field iss (js ''problemMessage'')))
                                            (Some (JStr []))),
                     file = normalizePath cwd f workspaceRoot,
                     line = the (or_else (or_else (opt_field (field iss (js ''location''))
                                                             (js ''startLine''))
                                                  (field iss (js ''line'')))
                                         (Some (JNum 1))),
                     column = the (or_else (or_else (opt_field (field iss (js ''location''))
                                                               (js ''startColumn''))
                                                    (field iss (js ''column'')))
                                           (Some (JNum 1))) \<rparr>
           | _ \<Rightarrow> Inl TypeError)
      | _ \<Rightarrow> Inl TypeError))"

text \<open>Each \<^verbatim>\<open>forEach\<close> of \<^verbatim>\<open>_parseJsonOutput\<close>: the first throw ends it.\<close>

fun parseEach :: "jsstring \<Rightarrow> json list \<Rightarrow> jsstring \<Rightarrow> error + issue list" where
  "parseEach cwd [] workspaceRoot = Inr []"
| "parseEach cwd (x # xs) workspaceRoot =
     (case parseIssue cwd x workspaceRoot of
        Inl e \<Rightarrow> Inl e
      | Inr i \<Rightarrow> (case parseEach cwd xs workspaceRoot of
                    Inl e \<Rightarrow> Inl e
                  | Inr is \<Rightarrow> Inr (i # is)))"

definition isArray :: "json \<Rightarrow> bool" where
  "isArray v = (case v of JArr xs \<Rightarrow> True | _ \<Rightarrow> False)"

text \<open>
  \<^verbatim>\<open>_parseJsonOutput\<close>. Calling \<^verbatim>\<open>forEach\<close> on a truthy \<^verbatim>\<open>diagnostics\<close> that is not
  an array throws a TypeError.
\<close>

definition parseJsonOutput :: "jsstring \<Rightarrow> json \<Rightarrow> jsstring \<Rightarrow> error + issue list" where
  "parseJsonOutput cwd jsonOutput workspaceRoot =
     (if jsonOutput = JNull then Inl TypeError
      else if truthy (field jsonOutput (js ''severity'')) \<and> truthy (field jsonOutput (js ''code''))
      then (case parseIssue cwd jsonOutput workspaceRoot of
              Inl e \<Rightarrow> Inl e
            | Inr i \<Rightarrow> Inr [i])
      else if isArray jsonOutput
      then (case jsonOutput of
              JArr xs \<Rightarrow> parseEach cwd xs workspaceRoot
            | _ \<Rightarrow> Inr [])
      else if truthy (field jsonOutput (js ''diagnostics''))
      then (case field jsonOutput (js ''diagnostics'') of
              Some (JArr xs) \<Rightarrow> parseEach cwd xs workspaceRoot
            | _ \<Rightarrow> Inl TypeError)
      else Inr [])"

text \<open>
  The three shapes in the words of the specification: a single issue object has a
  severity-like field (\<^verbatim>\<open>severity\<close> or \<^verbatim>\<open>level\<close>) and a code-like field (\<^verbatim>\<open>code\<close> or
  \<^verbatim>\<open>errorCode\<close>) at the top level, an array of issues is a sequence, and a wrapped
  diagnostics object has a \<^verbatim>\<open>diagnostics\<close> field that holds a sequence.
\<close>

definition spec_singleIssue :: "json \<Rightarrow> bool" where
  "spec_singleIssue v =
     ((field v (js ''severity'') \<noteq> None \<or> field v (js ''level'') \<noteq> None)
      \<and> (field v (js ''code'') \<noteq> None \<or> field v (js ''errorCode'') \<noteq> None))"

definition spec_array :: "json \<Rightarrow> bool" where
  "spec_array v = isArray v"

definition spec_wrapped :: "json \<Rightarrow> bool" where
  "spec_wrapped v = (case field v (js ''diagnostics'') of Some (JArr xs) \<Rightarrow> True | _ \<Rightarrow> False)"

section \<open>Numbers\<close>

text \<open>
  A JavaScript number is a double. The double nearest to a positive rational has 53
  significant bits and an exponent of at least \<open>-1074\<close>; a tie goes to the even
  significand, and what rounds to \<open>2 ^ 1024\<close> or more is beyond the largest double.
\<close>

function bitLength :: "nat \<Rightarrow> nat" where
  "bitLength n = (if n = 0 then 0 else Suc (bitLength (n div 2)))"
  by pat_completeness auto
termination
  by (relation "measure id") auto

declare bitLength.simps [simp del]

definition pow2 :: "int \<Rightarrow> rat" where
  "pow2 k = (if 0 \<le> k then 2 ^ nat k else 1 / 2 ^ nat (- k))"

definition pow10 :: "int \<Rightarrow> rat" where
  "pow10 k = (if 0 \<le> k then 10 ^ nat k else 1 / 10 ^ nat (- k))"

text \<open>The exponent \<open>e\<close> with \<open>2 ^ e \<le> r < 2 ^ (e + 1)\<close>, for a positive \<open>r\<close>.\<close>

definition floorLog2 :: "rat \<Rightarrow> int" where
  "floorLog2 r =
     (case quotient_of r of
        (a, b) \<Rightarrow>
          let l = int (bitLength (nat a)) - int (bitLength (nat b))
          in if pow2 l \<le> r then l else l - 1)"

definition roundHalfEven :: "rat \<Rightarrow> int" where
  "roundHalfEven q =
     (let f = \<lfloor>q\<rfloor>; d = q - of_int f
      in if 1 / 2 < d \<or> (d = 1 / 2 \<and> odd f) then f + 1 else f)"

definition roundDouble :: "rat \<Rightarrow> rat option" where
  "roundDouble a =
     (let p = max (floorLog2 a - 52) (- 1074);
          v = of_int (roundHalfEven (a / pow2 p)) * pow2 p
      in if pow2 1024 \<le> v then None else Some v)"

text \<open>The number value of a rational, as a value.\<close>

definition toDouble :: "rat \<Rightarrow> json" where
  "toDouble r =
     (if r = 0 then JNum 0
      else (case roundDouble \<bar>r\<bar> of
              None \<Rightarrow> if r < 0 then JNegInfinity else JInfinity
            | Some v \<Rightarrow> JNum (if r < 0 then - v else v)))"

definition decimalValue :: "jsstring \<Rightarrow> nat" where
  "decimalValue s = foldl (\<lambda>a c. 10 * a + (c - 48)) 0 s"

section \<open>The issue-start pattern of the text report\<close>

text \<open>
  The regular expression of \<^verbatim>\<open>_parseTextOutput\<close>,
  \<^verbatim>\<open>/^(error|warning|info|hint)\s+B\s+(.+?)\s+B\s+(.+?):(\d+):(\d+)/\<close> with \<^verbatim>\<open>B\<close> the
  glyph U+2022, is a sequence of items, each a literal, an alternative of literals or a
  repeated character class, greedy (\<^verbatim>\<open>+\<close>) or lazy (\<^verbatim>\<open>+?\<close>), some of them in
  capturing parentheses. It is matched as JavaScript does it, by backtracking: every item
  offers the lengths it can take from the front of the input in its order of preference,
  and the first combination under which the rest of the pattern matches is the result.
\<close>

datatype cclass = Dot | Space | Digit

fun in_class :: "cclass \<Rightarrow> nat \<Rightarrow> bool" where
  "in_class Dot c = (\<not> isLineTerminator c)"
| "in_class Space c = isSpace c"
| "in_class Digit c = isDigit c"

datatype atom = Lit jsstring | Alt "jsstring list" | Plus cclass | PlusLazy cclass

datatype item = Plain atom | Group atom

fun candidates :: "atom \<Rightarrow> jsstring \<Rightarrow> nat list" where
  "candidates (Lit t) s = (if startsWith s t then [length t] else [])"
| "candidates (Alt ts) s = map length (filter (startsWith s) ts)"
| "candidates (Plus c) s = rev [1 ..< Suc (length (takeWhile (in_class c) s))]"
| "candidates (PlusLazy c) s = [1 ..< Suc (length (takeWhile (in_class c) s))]"

fun first_some :: "('a \<Rightarrow> 'b option) \<Rightarrow> 'a list \<Rightarrow> 'b option" where
  "first_some f [] = None"
| "first_some f (x # xs) = (case f x of Some y \<Rightarrow> Some y | None \<Rightarrow> first_some f xs)"

text \<open>
  The pattern is anchored at the start of the line and open at its end; the result is the
  list of the captured groups.
\<close>

fun matchItems :: "item list \<Rightarrow> jsstring \<Rightarrow> jsstring list \<Rightarrow> jsstring list option" where
  "matchItems [] s caps = Some caps"
| "matchItems (Plain a # rest) s caps =
     first_some (\<lambda>n. matchItems rest (drop n s) caps) (candidates a s)"
| "matchItems (Group a # rest) s caps =
     first_some (\<lambda>n. matchItems rest (drop n s) (caps @ [take n s])) (candidates a s)"

definition issueStart :: "item list" where
  "issueStart =
     [Group (Alt [js ''error'', js ''warning'', js ''info'', js ''hint'']),
      Plain (Plus Space), Plain (Lit [bullet]), Plain (Plus Space),
      Group (PlusLazy Dot),
      Plain (Plus Space), Plain (Lit [bullet]), Plain (Plus Space),
      Group (PlusLazy Dot), Plain (Lit (js '':'')),
      Group (Plus Digit), Plain (Lit (js '':'')),
      Group (Plus Digit)]"

text \<open>
  \<^verbatim>\<open>parseInt(s, 10)\<close> on a string of decimal digits, which is what the pattern hands to
  it: the double nearest to the decimal number, \<^verbatim>\<open>Infinity\<close> when that is beyond the
  largest double. Past the 20th significant digit the standard allows an engine to read
  the digits as zeros, which can move the result to a neighbouring double; the model reads
  every digit.
\<close>

definition parseInt :: "jsstring \<Rightarrow> json" where
  "parseInt s = toDouble (of_nat (decimalValue s))"

section \<open>The text report decoder\<close>

text \<open>
  The issue under accumulation (\<^verbatim>\<open>currentIssue\<close>); its message is a string that grows
  with every continuation line.
\<close>

record partialIssue =
  p_severity :: severity
  p_message :: jsstring
  p_file :: jsstring
  p_line :: json
  p_column :: json

definition finished :: "partialIssue \<Rightarrow> issue" where
  "finished c =
     \<lparr> severity = p_severity c, code = JStr (js ''analyzer''), message = JStr (p_message c),
       file = p_file c, line = p_line c, column = p_column c \<rparr>"

definition pushCurrent :: "issue list \<Rightarrow> partialIssue option \<Rightarrow> issue list" where
  "pushCurrent issues cur = (case cur of None \<Rightarrow> issues | Some c \<Rightarrow> issues @ [finished c])"

text \<open>The loop over the lines of the report, and the push after it.\<close>

fun parseLines ::
  "jsstring \<Rightarrow> jsstring \<Rightarrow> jsstring list \<Rightarrow> issue list \<Rightarrow> partialIssue option \<Rightarrow> issue list"
where
  "parseLines cwd workspaceRoot [] issues cur = pushCurrent issues cur"
| "parseLines cwd workspaceRoot (l # ls) issues cur =
     (case matchItems issueStart l [] of
        Some [g1, g2, g3, g4, g5] \<Rightarrow>
          parseLines cwd workspaceRoot ls (pushCurrent issues cur)
            (Some \<lparr> p_severity = mapSeverity g1, p_message = trim g2,
                    p_file = path_relative cwd workspaceRoot g3,
                    p_line = parseInt g4, p_column = parseInt g5 \<rparr>)
      | _ \<Rightarrow>
          (case cur of
             Some c \<Rightarrow>
               if trim l \<noteq> []
               then parseLines cwd workspaceRoot ls issues
                      (Some (c\<lparr> p_message := p_message c @ js '' '' @ trim l \<rparr>))
               else parseLines cwd workspaceRoot ls issues cur
           | None \<Rightarrow> parseLines cwd workspaceRoot ls issues cur))"

definition decodeText :: "jsstring \<Rightarrow> jsstring \<Rightarrow> jsstring \<Rightarrow> issue list" where
  "decodeText cwd workspaceRoot stdout = parseLines cwd workspaceRoot (split_on 10 stdout) [] None"

section \<open>The diagnostics snapshot decoder\<close>

text \<open>
  The editor's diagnostics, as the declarations of its API type them: a severity level
  (Error 0, Warning 1, Information 2, Hint 3), a code that is absent, a string, a number
  or an object with a string or a number as its \<^verbatim>\<open>value\<close>, and a zero-based position.
  A number that is a code is an integer, written in decimal by \<^verbatim>\<open>String\<close>.
\<close>

record uri =
  scheme :: jsstring
  fsPath :: jsstring

datatype diagCode =
    NoCode
  | StringCode jsstring
  | NumberCode int
  | ObjectCode "jsstring + int"

record diagnostic =
  d_severity :: nat
  d_code :: diagCode
  d_message :: jsstring
  d_line :: nat
  d_character :: nat

function natToString :: "nat \<Rightarrow> jsstring" where
  "natToString n = (if n < 10 then [48 + n] else natToString (n div 10) @ [48 + n mod 10])"
  by pat_completeness auto
termination
  by (relation "measure id") auto

definition intToString :: "int \<Rightarrow> jsstring" where
  "intToString i = (if i < 0 then js ''-'' @ natToString (nat (- i)) else natToString (nat i))"

definition mapDiagnosticSeverity :: "nat \<Rightarrow> severity" where
  "mapDiagnosticSeverity s =
     (if s = 0 then Error else if s = 1 then Warning else if s = 2 then Info
      else if s = 3 then Hint else Info)"

definition codeString :: "diagCode \<Rightarrow> jsstring" where
  "codeString c =
     (case c of
        NoCode \<Rightarrow> js ''unknown''
      | StringCode s \<Rightarrow> s
      | NumberCode n \<Rightarrow> intToString n
      | ObjectCode (Inl s) \<Rightarrow> s
      | ObjectCode (Inr n) \<Rightarrow> intToString n)"

definition diagnosticIssue :: "jsstring \<Rightarrow> diagnostic \<Rightarrow> issue" where
  "diagnosticIssue relativeFile d =
     \<lparr> severity = mapDiagnosticSeverity (d_severity d), code = JStr (codeString (d_code d)),
       message = JStr (d_message d), file = relativeFile,
       line = JNum (of_nat (d_line d + 1)), column = JNum (of_nat (d_character d + 1)) \<rparr>"

text \<open>
  \<^verbatim>\<open>_getDiagnosticsFromEditor\<close>, given the working directory, the workspace folders
  (\<open>None\<close> is \<^verbatim>\<open>undefined\<close>) and the snapshot.
\<close>

definition firstFolder :: "jsstring list option \<Rightarrow> jsstring" where
  "firstFolder folders = (case folders of Some (r # _) \<Rightarrow> r | _ \<Rightarrow> [])"

definition getDiagnosticsFromEditor ::
  "jsstring \<Rightarrow> jsstring list option \<Rightarrow> (uri \<times> diagnostic list) list \<Rightarrow> issue list" where
  "getDiagnosticsFromEditor cwd folders snapshot =
     concat (map (\<lambda>(u, diags).
       if scheme u \<noteq> js ''file'' \<or> \<not> endsWith (fsPath u) (js ''.dart'') then []
       else
         (let workspaceRoot = firstFolder folders;
              relativeFile = (if workspaceRoot \<noteq> [] then path_relative cwd workspaceRoot (fsPath u)
                              else fsPath u)
          in map (diagnosticIssue relativeFile) diags)) snapshot)"

section \<open>The orchestrator\<close>

text \<open>
  What a run of the orchestrator reads from outside: the working directory of the
  process, the outcome of \<^verbatim>\<open>execAsync\<close> for a command line (it rejects, or it resolves
  with the standard output and the standard error), \<^verbatim>\<open>JSON.parse\<close> (\<open>None\<close> where it
  throws), the workspace folders and the diagnostics of the editor.
\<close>

datatype analyzer = Dart | Flutter

datatype execResult = ExecError | ExecOk jsstring jsstring

record env =
  e_cwd :: jsstring
  e_exec :: "jsstring \<Rightarrow> execResult"
  e_parse :: "jsstring \<Rightarrow> json option"
  e_folders :: "jsstring list option"
  e_diagnostics :: "(uri \<times> diagnostic list) list"

text \<open>The calls a run makes, in their order.\<close>

datatype step = Exec jsstring | JsonParse | DecodeJson | DecodeText | DecodeSnapshot

datatype "next" = FallBackToText | Finished "issue list"

definition jsonCommand :: "analyzer \<Rightarrow> jsstring" where
  "jsonCommand a =
     (case a of Flutter \<Rightarrow> js ''flutter analyze --format=json''
              | Dart \<Rightarrow> js ''dart analyze --format=json'')"

definition textCommand :: "analyzer \<Rightarrow> jsstring" where
  "textCommand a = (if a = Flutter then js ''flutter analyze'' else js ''dart analyze'')"

definition snapshotIssues :: "env \<Rightarrow> issue list" where
  "snapshotIssues e = getDiagnosticsFromEditor (e_cwd e) (e_folders e) (e_diagnostics e)"

text \<open>
  \<^verbatim>\<open>_runFlutterAnalyze\<close> and \<^verbatim>\<open>_runDartAnalyze\<close> from the point where the command with
  \<^verbatim>\<open>--format=json\<close> has returned: the \<^verbatim>\<open>catch\<close> of the outer \<^verbatim>\<open>try\<close> reads the
  diagnostics, the test \<^verbatim>\<open>stderr && !stdout\<close> and the \<^verbatim>\<open>catch\<close> of the inner
  \<^verbatim>\<open>try\<close> (around \<^verbatim>\<open>JSON.parse\<close> and \<^verbatim>\<open>_parseJsonOutput\<close>) go on to
  \<^verbatim>\<open>_parseTextOutput\<close>.
\<close>

definition afterJsonExec :: "env \<Rightarrow> jsstring \<Rightarrow> execResult \<Rightarrow> step list \<times> next" where
  "afterJsonExec e workspaceRoot r =
     (case r of
        ExecError \<Rightarrow> ([DecodeSnapshot], Finished (snapshotIssues e))
      | ExecOk stdout stderr \<Rightarrow>
          if stderr \<noteq> [] \<and> stdout = [] then ([], FallBackToText)
          else (case e_parse e stdout of
                  None \<Rightarrow> ([JsonParse], FallBackToText)
                | Some v \<Rightarrow>
                    (case parseJsonOutput (e_cwd e) v workspaceRoot of
                       Inl err \<Rightarrow> ([JsonParse, DecodeJson], FallBackToText)
                     | Inr issues \<Rightarrow> ([JsonParse, DecodeJson], Finished issues))))"

text \<open>\<^verbatim>\<open>_parseTextOutput\<close> from the point where the plain command has returned.\<close>

definition afterTextExec :: "env \<Rightarrow> jsstring \<Rightarrow> execResult \<Rightarrow> step list \<times> issue list" where
  "afterTextExec e workspaceRoot r =
     (case r of
        ExecError \<Rightarrow> ([DecodeSnapshot], snapshotIssues e)
      | ExecOk stdout stderr \<Rightarrow> ([DecodeText], decodeText (e_cwd e) workspaceRoot stdout))"

definition parseTextOutput :: "env \<Rightarrow> jsstring \<Rightarrow> analyzer \<Rightarrow> step list \<times> issue list" where
  "parseTextOutput e workspaceRoot a =
     (case afterTextExec e workspaceRoot (e_exec e (textCommand a)) of
        (steps, issues) \<Rightarrow> (Exec (textCommand a) # steps, issues))"

definition runAnalyze :: "env \<Rightarrow> jsstring \<Rightarrow> analyzer \<Rightarrow> step list \<times> issue list" where
  "runAnalyze e workspaceRoot a =
     (case afterJsonExec e workspaceRoot (e_exec e (jsonCommand a)) of
        (steps, Finished issues) \<Rightarrow> (Exec (jsonCommand a) # steps, issues)
      | (steps, FallBackToText) \<Rightarrow>
          (case parseTextOutput e workspaceRoot a of
             (steps', issues) \<Rightarrow> (Exec (jsonCommand a) # steps @ steps', issues)))"

definition runFlutterAnalyze :: "env \<Rightarrow> jsstring \<Rightarrow> step list \<times> issue list" where
  "runFlutterAnalyze e workspaceRoot = runAnalyze e workspaceRoot Flutter"

definition runDartAnalyze :: "env \<Rightarrow> jsstring \<Rightarrow> step list \<times> issue list" where
  "runDartAnalyze e workspaceRoot = runAnalyze e workspaceRoot Dart"

section \<open>Grouping, sorting and counting\<close>

text \<open>
  The file map of \<^verbatim>\<open>_getHtmlForWebview\<close>: a \<^verbatim>\<open>Map\<close> keeps its keys in the order of
  their first insertion, and every issue is pushed to the end of the list of its file.
\<close>

definition groupStep :: "(jsstring \<times> issue list) list \<Rightarrow> issue \<Rightarrow> (jsstring \<times> issue list) list" where
  "groupStep m i =
     (case map_of m (file i) of
        None \<Rightarrow> m @ [(file i, [i])]
      | Some fileIssues \<Rightarrow> map (\<lambda>(k, v). if k = file i then (k, v @ [i]) else (k, v)) m)"

definition issuesByFile :: "issue list \<Rightarrow> (jsstring \<times> issue list) list" where
  "issuesByFile issues = foldl groupStep [] issues"

text \<open>
  \<^verbatim>\<open>Array.prototype.sort\<close> with a comparison function: a stable sort, here by insertion;
  \<open>x\<close> goes before \<open>y\<close> unless the comparison of \<open>x\<close> with \<open>y\<close> is positive. Where
  the comparison function is not consistent (it calls \<open>x\<close> equal to \<open>y\<close> and \<open>y\<close> to
  \<open>z\<close>, but not \<open>x\<close> to \<open>z\<close>), the standard leaves the order to the implementation.
\<close>

fun insertBy :: "('a \<Rightarrow> 'a \<Rightarrow> 'n::linordered_idom) \<Rightarrow> 'a \<Rightarrow> 'a list \<Rightarrow> 'a list" where
  "insertBy cmp x [] = [x]"
| "insertBy cmp x (y # ys) = (if cmp x y \<le> 0 then x # y # ys else y # insertBy cmp x ys)"

definition sortBy :: "('a \<Rightarrow> 'a \<Rightarrow> 'n::linordered_idom) \<Rightarrow> 'a list \<Rightarrow> 'a list" where
  "sortBy cmp xs = foldr (insertBy cmp) xs []"

text \<open>
  The comparison \<^verbatim>\<open>a.line - b.line\<close> turns both lines into numbers (ToNumber) and
  subtracts. The number of a string is the number of its trimmed text: \<open>0\<close> for the empty
  text, the value of a literal in radix 16, 8 or 2, \<^verbatim>\<open>Infinity\<close> with a sign or without,
  the value of a decimal literal (digits, fraction, exponent) with a sign or without, and
  NaN for everything else.
\<close>

datatype number = Fin rat | PosInf | NegInf | NaN

definition doubleNumber :: "rat \<Rightarrow> number" where
  "doubleNumber r =
     (if r = 0 then Fin 0
      else (case roundDouble \<bar>r\<bar> of
              None \<Rightarrow> if r < 0 then NegInf else PosInf
            | Some v \<Rightarrow> Fin (if r < 0 then - v else v)))"

definition isHexDigit :: "nat \<Rightarrow> bool" where
  "isHexDigit c = (isDigit c \<or> (65 \<le> c \<and> c \<le> 70) \<or> (97 \<le> c \<and> c \<le> 102))"

definition digitValue :: "nat \<Rightarrow> nat" where
  "digitValue c = (if isDigit c then c - 48 else if 65 \<le> c \<and> c \<le> 70 then c - 55 else c - 87)"

definition radixValue :: "nat \<Rightarrow> jsstring \<Rightarrow> nat" where
  "radixValue b s = foldl (\<lambda>a c. b * a + digitValue c) 0 s"

text \<open>\<^verbatim>\<open>0x\<close>, \<^verbatim>\<open>0o\<close> or \<^verbatim>\<open>0b\<close> (the letter in either case) and at least one digit.\<close>

definition nonDecimalLiteral :: "jsstring \<Rightarrow> nat option" where
  "nonDecimalLiteral t =
     (case t of
        c0 # c1 # ds \<Rightarrow>
          if c0 = 48 \<and> ds \<noteq> [] then
            (if (c1 = 120 \<or> c1 = 88) \<and> list_all isHexDigit ds then Some (radixValue 16 ds)
             else if (c1 = 111 \<or> c1 = 79) \<and> list_all (\<lambda>c. 48 \<le> c \<and> c \<le> 55) ds
               then Some (radixValue 8 ds)
             else if (c1 = 98 \<or> c1 = 66) \<and> list_all (\<lambda>c. c = 48 \<or> c = 49) ds
               then Some (radixValue 2 ds)
             else None)
          else None
      | _ \<Rightarrow> None)"

text \<open>Nothing, or \<^verbatim>\<open>e\<close> or \<^verbatim>\<open>E\<close>, a sign or none, and at least one digit.\<close>

definition exponentPart :: "jsstring \<Rightarrow> int option" where
  "exponentPart s =
     (case s of
        [] \<Rightarrow> Some 0
      | c # r \<Rightarrow>
          if c = 101 \<or> c = 69 then
            (let negative = (r \<noteq> [] \<and> hd r = 45);
                 ds = (if r \<noteq> [] \<and> (hd r = 45 \<or> hd r = 43) then tl r else r)
             in if ds \<noteq> [] \<and> list_all isDigit ds
                then Some (if negative then - int (decimalValue ds) else int (decimalValue ds))
                else None)
          else None)"

text \<open>
  Digits with an optional fraction, or a fraction alone, and an optional exponent: the
  exact value.
\<close>

definition unsignedDecimalLiteral :: "jsstring \<Rightarrow> rat option" where
  "unsignedDecimalLiteral t =
     (let ip = takeWhile isDigit t;
          r1 = dropWhile isDigit t;
          dot = (r1 \<noteq> [] \<and> hd r1 = 46);
          fp = (if dot then takeWhile isDigit (tl r1) else []);
          r2 = (if dot then dropWhile isDigit (tl r1) else r1)
      in if ip = [] \<and> fp = [] then None
         else (case exponentPart r2 of
                 None \<Rightarrow> None
               | Some e \<Rightarrow> Some (of_nat (decimalValue (ip @ fp)) * pow10 (e - int (length fp)))))"

definition stringToNumber :: "jsstring \<Rightarrow> number" where
  "stringToNumber s =
     (let t = trim s in
      if t = [] then Fin 0
      else (case nonDecimalLiteral t of
              Some n \<Rightarrow> doubleNumber (of_nat n)
            | None \<Rightarrow>
                (let negative = (hd t = 45);
                     u = (if hd t = 45 \<or> hd t = 43 then tl t else t)
                 in if u = js ''Infinity'' then (if negative then NegInf else PosInf)
                    else (case unsignedDecimalLiteral u of
                            None \<Rightarrow> NaN
                          | Some r \<Rightarrow> doubleNumber (if negative then - r else r)))))"

text \<open>
  ToNumber of an object asks it for \<^verbatim>\<open>valueOf\<close>, which gives the object back, and then
  for \<^verbatim>\<open>toString\<close>: an object parsed from JSON that has a member \<^verbatim>\<open>toString\<close> of its own
  has no function there, and the conversion throws a TypeError; every other object has
  the string \<^verbatim>\<open>[object Object]\<close>, which is NaN. An array is asked alike and answers with
  the strings of its elements joined by commas, so it throws where an element does.
\<close>

fun throwsToString :: "json \<Rightarrow> bool" where
  "throwsToString (JObj kvs) = (js ''toString'' \<in> set (map fst kvs))"
| "throwsToString (JArr xs) = (\<exists>x \<in> set xs. throwsToString x)"
| "throwsToString v = False"

text \<open>
  ToNumber where it does not throw. The string of an array without elements, or with
  \<^verbatim>\<open>null\<close> as its one element, is empty; the string of an array with one element is the
  string of that element, and the string of a number reads back as that number; two
  elements or more give a string with a comma, which is NaN.
\<close>

fun numberOf :: "json \<Rightarrow> number" where
  "numberOf JNull = Fin 0"
| "numberOf (JBool b) = Fin (if b then 1 else 0)"
| "numberOf (JNum r) = Fin r"
| "numberOf JInfinity = PosInf"
| "numberOf JNegInfinity = NegInf"
| "numberOf (JStr s) = stringToNumber s"
| "numberOf (JObj kvs) = NaN"
| "numberOf (JArr []) = Fin 0"
| "numberOf (JArr [JBool b]) = NaN"
| "numberOf (JArr [x]) = numberOf x"
| "numberOf (JArr (x # y # zs)) = NaN"

text \<open>
  The sign of \<open>x - y\<close> as \<^verbatim>\<open>sort\<close> reads it: a difference that is NaN counts as \<open>0\<close>.
\<close>

fun compareNumbers :: "number \<Rightarrow> number \<Rightarrow> int" where
  "compareNumbers (Fin a) (Fin b) = (if a < b then - 1 else if a = b then 0 else 1)"
| "compareNumbers NaN y = 0"
| "compareNumbers x NaN = 0"
| "compareNumbers PosInf PosInf = 0"
| "compareNumbers NegInf NegInf = 0"
| "compareNumbers PosInf y = 1"
| "compareNumbers x PosInf = - 1"
| "compareNumbers NegInf y = - 1"
| "compareNumbers x NegInf = 1"

definition lineNumber :: "issue \<Rightarrow> number" where
  "lineNumber i = numberOf (line i)"

definition isNumber :: "json \<Rightarrow> bool" where
  "isNumber v = (case v of JNum r \<Rightarrow> True | _ \<Rightarrow> False)"

text \<open>
  \<^verbatim>\<open>fileIssues.sort((a, b) => a.line - b.line)\<close>. A list of fewer than two issues is
  returned without a comparison; otherwise every issue is compared at least once, and the
  sort throws where the conversion of a line does.
\<close>

definition sortByLine :: "issue list \<Rightarrow> error + issue list" where
  "sortByLine fileIssues =
     (if 2 \<le> length fileIssues \<and> (\<exists>i \<in> set fileIssues. throwsToString (line i))
      then Inl TypeError
      else Inr (sortBy (\<lambda>a b. compareNumbers (lineNumber a) (lineNumber b)) fileIssues))"

fun sortGroups :: "(jsstring \<times> issue list) list \<Rightarrow> error + (jsstring \<times> issue list) list" where
  "sortGroups [] = Inr []"
| "sortGroups ((f, fileIssues) # rest) =
     (case sortByLine fileIssues of
        Inl e \<Rightarrow> Inl e
      | Inr sortedIssues \<Rightarrow>
          (case sortGroups rest of
             Inl e \<Rightarrow> Inl e
           | Inr groups \<Rightarrow> Inr ((f, sortedIssues) # groups)))"

text \<open>
  \<^verbatim>\<open>fileGroups\<close>, which the specification calls \<^verbatim>\<open>groupAndSort\<close>. The comparison of
  the host's locale, \<^verbatim>\<open>localeCompare\<close>, is a parameter.
\<close>

definition fileGroups ::
  "(jsstring \<Rightarrow> jsstring \<Rightarrow> int) \<Rightarrow> issue list \<Rightarrow> error + (jsstring \<times> issue list) list" where
  "fileGroups localeCompare issues =
     (case sortGroups (issuesByFile issues) of
        Inl e \<Rightarrow> Inl e
      | Inr groups \<Rightarrow> Inr (sortBy (\<lambda>a b. localeCompare (fst a) (fst b)) groups))"

text \<open>The three numbers of the summary bar.\<close>

definition errors :: "issue list \<Rightarrow> issue list" where
  "errors issues = filter (\<lambda>i. severity i = Error) issues"

definition warnings :: "issue list \<Rightarrow> issue list" where
  "warnings issues = filter (\<lambda>i. severity i = Warning) issues"

definition infos :: "issue list \<Rightarrow> issue list" where
  "infos issues = filter (\<lambda>i. severity i = Info) issues"

definition hints :: "issue list \<Rightarrow> issue list" where
  "hints issues = filter (\<lambda>i. severity i = Hint) issues"

definition summary :: "issue list \<Rightarrow> nat \<times> nat \<times> nat" where
  "summary issues =
     (length (errors issues), length (warnings issues),
      length (infos issues) + length (hints issues))"

section \<open>The panel and its refresh\<close>

text \<open>
  The state of a panel: the fields \<^verbatim>\<open>_analysisResults\<close> and \<^verbatim>\<open>_isAnalyzing\<close> and the
  title, and, to follow the asynchronous \<^verbatim>\<open>refresh\<close>, the runs of it that are suspended
  at an \<^verbatim>\<open>await\<close> of \<^verbatim>\<open>execAsync\<close> and the command lines handed to \<^verbatim>\<open>execAsync\<close> so
  far. JavaScript runs one piece of code at a time: a call of \<^verbatim>\<open>refresh\<close> runs until
  its first \<^verbatim>\<open>await\<close>, and a suspended run goes on when its command returns.
\<close>

datatype pending = AwaitJson analyzer jsstring | AwaitText analyzer jsstring

record panel =
  analysisResults :: "issue list"
  isAnalyzing :: bool
  title :: jsstring
  inFlight :: "pending list"
  invoked :: "jsstring list"

definition initialPanel :: panel where
  "initialPanel =
     \<lparr> analysisResults = [], isAnalyzing = False, title = js ''Dart Analysis'',
       inFlight = [], invoked = [] \<rparr>"

definition updateStatus :: "jsstring \<Rightarrow> panel \<Rightarrow> panel" where
  "updateStatus msg p = p\<lparr> title := js ''Dart Analysis - '' @ msg \<rparr>"

definition analyzerName :: "analyzer \<Rightarrow> jsstring" where
  "analyzerName a = (if a = Flutter then js ''Flutter'' else js ''Dart'')"

text \<open>
  \<^verbatim>\<open>refresh\<close> up to its first \<^verbatim>\<open>await\<close>. Without a workspace folder it returns at
  once, through the \<^verbatim>\<open>finally\<close> that clears the flag.
\<close>

definition refresh :: "env \<Rightarrow> analyzer \<Rightarrow> panel \<Rightarrow> panel" where
  "refresh e a p =
     (if isAnalyzing p then p
      else
        (let p1 = updateStatus (analyzerName a @ js '' Analyzing...'') (p\<lparr> isAnalyzing := True \<rparr>)
         in case e_folders e of
              Some (workspaceRoot # rest) \<Rightarrow>
                p1\<lparr> inFlight := inFlight p1 @ [AwaitJson a workspaceRoot],
                    invoked := invoked p1 @ [jsonCommand a] \<rparr>
            | _ \<Rightarrow> (updateStatus (js ''No workspace folder found'') p1)\<lparr> isAnalyzing := False \<rparr>))"

text \<open>
  The end of a run: the results replace the old ones, \<^verbatim>\<open>_update()\<close> renders the page,
  and the \<^verbatim>\<open>finally\<close> clears the flag. Where \<^verbatim>\<open>_update()\<close> throws, the \<^verbatim>\<open>catch\<close> of
  \<^verbatim>\<open>refresh\<close> puts the message of the error (\<open>updateError\<close>) into the title.
\<close>

definition finish :: "issue list \<Rightarrow> jsstring option \<Rightarrow> panel \<Rightarrow> panel" where
  "finish results updateError p =
     (updateStatus
        (case updateError of
           None \<Rightarrow> js ''Found '' @ natToString (length results) @ js '' issue''
                   @ (if length results \<noteq> 1 then js ''s'' else [])
         | Some errorMessage \<Rightarrow> js ''Error: '' @ errorMessage)
        (p\<lparr> analysisResults := results \<rparr>))\<lparr> isAnalyzing := False \<rparr>"

definition removeAt :: "nat \<Rightarrow> 'a list \<Rightarrow> 'a list" where
  "removeAt k xs = take k xs @ drop (Suc k) xs"

text \<open>
  The command of the suspended run number \<open>k\<close> returns \<open>r\<close>; \<open>u\<close> is what \<^verbatim>\<open>_update()\<close>
  does if the run ends here.
\<close>

definition execReturns :: "env \<Rightarrow> nat \<Rightarrow> execResult \<Rightarrow> jsstring option \<Rightarrow> panel \<Rightarrow> panel" where
  "execReturns e k r u p =
     (if k < length (inFlight p)
      then (case inFlight p ! k of
              AwaitJson a workspaceRoot \<Rightarrow>
                (case snd (afterJsonExec e workspaceRoot r) of
                   FallBackToText \<Rightarrow>
                     p\<lparr> inFlight := (inFlight p)[k := AwaitText a workspaceRoot],
                        invoked := invoked p @ [textCommand a] \<rparr>
                 | Finished results \<Rightarrow>
                     finish results u (p\<lparr> inFlight := removeAt k (inFlight p) \<rparr>))
            | AwaitText a workspaceRoot \<Rightarrow>
                finish (snd (afterTextExec e workspaceRoot r)) u
                       (p\<lparr> inFlight := removeAt k (inFlight p) \<rparr>))
      else p)"

text \<open>The states a panel can reach, whatever is called and whatever the commands return.\<close>

inductive reachable :: "panel \<Rightarrow> bool" where
  reach_init: "reachable initialPanel"
| reach_refresh: "reachable p \<Longrightarrow> reachable (refresh e a p)"
| reach_returns: "reachable p \<Longrightarrow> k < length (inFlight p) \<Longrightarrow> reachable (execReturns e k r u p)"

section \<open>The severity mapper is total and ignores case\<close>

lemma toLowerCase_idem: "toLowerCase (toLowerCase s) = toLowerCase s"
  by (induction s) (auto simp: toLowerCase_def)

text \<open>
  C6. The Severity Mapper returns one of the four severities for every string. It
  compares the lower-cased label, in this order: \<open>error\<close> or \<open>fatal\<close> give Error,
  \<open>warning\<close> or \<open>warn\<close> give Warning, \<open>info\<close> or \<open>information\<close> give Info, and every
  other string gives Hint. A string and its lower-cased form map alike; \<open>ERROR\<close>,
  \<open>Fatal\<close> and \<open>warn\<close> map to Error, Error and Warning, and \<open>xyz\<close> to Hint.
\<close>

theorem mapSeverity_total:
  "mapSeverity s \<in> {Error, Warning, Info, Hint}
   \<and> (mapSeverity s = Error) = (toLowerCase s = js ''error'' \<or> toLowerCase s = js ''fatal'')
   \<and> (mapSeverity s = Warning) = (toLowerCase s = js ''warning'' \<or> toLowerCase s = js ''warn'')
   \<and> (mapSeverity s = Info) = (toLowerCase s = js ''info'' \<or> toLowerCase s = js ''information'')
   \<and> (mapSeverity s = Hint) =
       (toLowerCase s \<notin> {js ''error'', js ''fatal'', js ''warning'', js ''warn'', js ''info'',
                           js ''information''})
   \<and> mapSeverity (toLowerCase s) = mapSeverity s
   \<and> mapSeverity (js ''ERROR'') = Error
   \<and> mapSeverity (js ''Fatal'') = Error
   \<and> mapSeverity (js ''warn'') = Warning
   \<and> mapSeverity (js ''xyz'') = Hint"
proof -
  have total: "mapSeverity s \<in> {Error, Warning, Info, Hint}"
    by (cases "mapSeverity s") simp_all
  have lits: "js ''error'' \<noteq> js ''warning''" "js ''error'' \<noteq> js ''warn''"
    "js ''error'' \<noteq> js ''info''" "js ''error'' \<noteq> js ''information''"
    "js ''fatal'' \<noteq> js ''warning''" "js ''fatal'' \<noteq> js ''warn''"
    "js ''fatal'' \<noteq> js ''info''" "js ''fatal'' \<noteq> js ''information''"
    "js ''warning'' \<noteq> js ''info''" "js ''warning'' \<noteq> js ''information''"
    "js ''warn'' \<noteq> js ''info''" "js ''warn'' \<noteq> js ''information''"
    by (simp_all add: js_def)
  have e: "(mapSeverity s = Error) = (toLowerCase s = js ''error'' \<or> toLowerCase s = js ''fatal'')"
    by (simp add: mapSeverity_def Let_def)
  have w: "(mapSeverity s = Warning) = (toLowerCase s = js ''warning'' \<or> toLowerCase s = js ''warn'')"
    using lits by (auto simp: mapSeverity_def Let_def)
  have i: "(mapSeverity s = Info) = (toLowerCase s = js ''info'' \<or> toLowerCase s = js ''information'')"
    using lits by (auto simp: mapSeverity_def Let_def)
  have h: "(mapSeverity s = Hint) =
       (toLowerCase s \<notin> {js ''error'', js ''fatal'', js ''warning'', js ''warn'', js ''info'',
                           js ''information''})"
    by (auto simp: mapSeverity_def Let_def)
  have low: "mapSeverity (toLowerCase s) = mapSeverity s"
    by (simp add: mapSeverity_def toLowerCase_idem)
  have ex: "mapSeverity (js ''ERROR'') = Error" "mapSeverity (js ''Fatal'') = Error"
    "mapSeverity (js ''warn'') = Warning" "mapSeverity (js ''xyz'') = Hint"
    by (simp_all add: mapSeverity_def toLowerCase_def js_def)
  from total e w i h low ex show ?thesis by blast
qed

section \<open>The JSON issue decoder\<close>

lemmas json_eval = parseJsonOutput_def parseIssue_def or_else_def isArray_def js_def

lemmas path_eval = normalizePath_def startsWith_def path_relative_def resolve_def isAbsolute_def
  normalizeSegments_def normalizeStep_def

text \<open>
  C8. Decoding the payload
  \<^verbatim>\<open>{"severity":"error","code":"E1","message":"m","location":{"file":"/root/a.dart","startLine":3,"startColumn":5}}\<close>
  against the root \<^verbatim>\<open>/root\<close> gives exactly one issue: severity error, code \<open>E1\<close>,
  message \<open>m\<close>, file \<open>a.dart\<close>, line 3, column 5, whatever the working directory.
\<close>

theorem parseJsonOutput_single_issue:
  "parseJsonOutput cwd
     (JObj [(js ''severity'', JStr (js ''error'')), (js ''code'', JStr (js ''E1'')),
            (js ''message'', JStr (js ''m'')),
            (js ''location'', JObj [(js ''file'', JStr (js ''/root/a.dart'')),
                                    (js ''startLine'', JNum 3), (js ''startColumn'', JNum 5)])])
     (js ''/root'')
   = Inr [\<lparr> severity = Error, code = JStr (js ''E1''), message = JStr (js ''m''),
            file = js ''a.dart'', line = JNum 3, column = JNum 5 \<rparr>]"
  by (simp add: json_eval path_eval mapSeverity_def toLowerCase_def)

text \<open>
  C1, as stated, fails: the payloads \<^verbatim>\<open>null\<close>, \<^verbatim>\<open>[{}]\<close> and \<^verbatim>\<open>{"diagnostics":5}\<close>
  parse as JSON, and the decoder raises a TypeError on each of them.
\<close>

theorem parseJsonOutput_raises:
  "parseJsonOutput (js ''/'') JNull (js ''/root'') = Inl TypeError
   \<and> parseJsonOutput (js ''/'') (JArr [JObj []]) (js ''/root'') = Inl TypeError
   \<and> parseJsonOutput (js ''/'') (JObj [(js ''diagnostics'', JNum 5)]) (js ''/root'')
     = Inl TypeError"
  by (simp add: json_eval)

lemma truthy_present: "truthy v \<Longrightarrow> v \<noteq> None"
  by (cases v) simp_all

lemma parseJsonOutput_no_shape:
  assumes "\<not> spec_singleIssue v" and "\<not> spec_array v" and "\<not> spec_wrapped v"
  shows "parseJsonOutput cwd v workspaceRoot
         = (if v = JNull \<or> truthy (field v (js ''diagnostics'')) then Inl TypeError else Inr [])"
proof -
  from assms(1) have single: "\<not> (truthy (field v (js ''severity'')) \<and> truthy (field v (js ''code'')))"
    using truthy_present by (auto simp: spec_singleIssue_def)
  from assms(2) have array: "\<not> isArray v"
    by (simp add: spec_array_def)
  from assms(3) have wrapped: "\<And>xs. field v (js ''diagnostics'') \<noteq> Some (JArr xs)"
    by (auto simp: spec_wrapped_def)
  show ?thesis
  proof (cases "truthy (field v (js ''diagnostics''))")
    case True
    with wrapped have "(case field v (js ''diagnostics'') of
                          Some (JArr xs) \<Rightarrow> parseEach cwd xs workspaceRoot
                        | _ \<Rightarrow> Inl TypeError) = Inl TypeError"
      by (auto split: option.splits json.splits)
    with True single array show ?thesis by (auto simp: parseJsonOutput_def)
  next
    case False
    with single array show ?thesis by (auto simp: parseJsonOutput_def)
  qed
qed

text \<open>
  C1, amended. A payload that matches none of the three shapes of the specification
  decodes to the empty list, unless it is \<^verbatim>\<open>null\<close> or has a truthy \<^verbatim>\<open>diagnostics\<close> that
  is no sequence: there the decoder raises a TypeError. The payloads \<^verbatim>\<open>[]\<close> and
  \<^verbatim>\<open>{"unrelatedField":1}\<close> decode to the empty list. When the decoder returns a list, the
  orchestrator ends the JSON stage with that list and no fallback; when the decoder
  raises, the orchestrator catches it and falls back to the text report.
\<close>

theorem parseJsonOutput_unrecognized:
  "(\<not> spec_singleIssue jsonOutput \<and> \<not> spec_array jsonOutput \<and> \<not> spec_wrapped jsonOutput
    \<longrightarrow> parseJsonOutput cwd jsonOutput workspaceRoot
        = (if jsonOutput = JNull \<or> truthy (field jsonOutput (js ''diagnostics''))
           then Inl TypeError else Inr []))
   \<and> parseJsonOutput cwd (JArr []) workspaceRoot = Inr []
   \<and> parseJsonOutput cwd (JObj [(js ''unrelatedField'', JNum 1)]) workspaceRoot = Inr []
   \<and> (\<not> (stderr \<noteq> [] \<and> stdout = []) \<and> e_parse e stdout = Some jsonOutput
        \<and> parseJsonOutput (e_cwd e) jsonOutput workspaceRoot = Inr issues
      \<longrightarrow> afterJsonExec e workspaceRoot (ExecOk stdout stderr)
            = ([JsonParse, DecodeJson], Finished issues))
   \<and> (\<not> (stderr \<noteq> [] \<and> stdout = []) \<and> e_parse e stdout = Some jsonOutput
        \<and> parseJsonOutput (e_cwd e) jsonOutput workspaceRoot = Inl err
      \<longrightarrow> afterJsonExec e workspaceRoot (ExecOk stdout stderr)
            = ([JsonParse, DecodeJson], FallBackToText))"
proof -
  have b: "parseJsonOutput cwd (JArr []) workspaceRoot = Inr []"
    by (simp add: json_eval)
  have c: "parseJsonOutput cwd (JObj [(js ''unrelatedField'', JNum 1)]) workspaceRoot = Inr []"
    by (simp add: json_eval)
  have d: "\<not> (stderr \<noteq> [] \<and> stdout = []) \<and> e_parse e stdout = Some jsonOutput
        \<and> parseJsonOutput (e_cwd e) jsonOutput workspaceRoot = Inr issues
      \<longrightarrow> afterJsonExec e workspaceRoot (ExecOk stdout stderr)
            = ([JsonParse, DecodeJson], Finished issues)"
    by (auto simp: afterJsonExec_def)
  have f: "\<not> (stderr \<noteq> [] \<and> stdout = []) \<and> e_parse e stdout = Some jsonOutput
        \<and> parseJsonOutput (e_cwd e) jsonOutput workspaceRoot = Inl err
      \<longrightarrow> afterJsonExec e workspaceRoot (ExecOk stdout stderr)
            = ([JsonParse, DecodeJson], FallBackToText)"
    by (auto simp: afterJsonExec_def)
  from parseJsonOutput_no_shape[of jsonOutput cwd workspaceRoot] b c d f show ?thesis by blast
qed

theorem parseJsonOutput_unrecognized_witness:
  "\<not> spec_singleIssue (JObj [(js ''unrelatedField'', JNum 1)])
   \<and> \<not> spec_array (JObj [(js ''unrelatedField'', JNum 1)])
   \<and> \<not> spec_wrapped (JObj [(js ''unrelatedField'', JNum 1)])
   \<and> parseJsonOutput (js ''/'') (JObj [(js ''unrelatedField'', JNum 1)]) (js ''/root'') = Inr []
   \<and> \<not> spec_singleIssue (JObj [(js ''diagnostics'', JNum 5)])
   \<and> \<not> spec_array (JObj [(js ''diagnostics'', JNum 5)])
   \<and> \<not> spec_wrapped (JObj [(js ''diagnostics'', JNum 5)])
   \<and> parseJsonOutput (js ''/'') (JObj [(js ''diagnostics'', JNum 5)]) (js ''/root'')
     = Inl TypeError
   \<and> afterJsonExec
       \<lparr> e_cwd = js ''/'', e_exec = (\<lambda>c. ExecError),
         e_parse = (\<lambda>s. Some (JObj [(js ''unrelatedField'', JNum 1)])),
         e_folders = Some [js ''/root''], e_diagnostics = [] \<rparr>
       (js ''/root'') (ExecOk (js ''{\"unrelatedField\":1}'') [])
     = ([JsonParse, DecodeJson], Finished [])
   \<and> afterJsonExec
       \<lparr> e_cwd = js ''/'', e_exec = (\<lambda>c. ExecError),
         e_parse = (\<lambda>s. Some (JObj [(js ''diagnostics'', JNum 5)])),
         e_folders = Some [js ''/root''], e_diagnostics = [] \<rparr>
       (js ''/root'') (ExecOk (js ''{\"diagnostics\":5}'') [])
     = ([JsonParse, DecodeJson], FallBackToText)"
proof -
  let ?u = "JObj [(js ''unrelatedField'', JNum 1)]"
  let ?d = "JObj [(js ''diagnostics'', JNum 5)]"
  let ?eu = "\<lparr> e_cwd = js ''/'', e_exec = (\<lambda>c. ExecError), e_parse = (\<lambda>s. Some ?u),
               e_folders = Some [js ''/root''], e_diagnostics = [] \<rparr>"
  let ?ed = "\<lparr> e_cwd = js ''/'', e_exec = (\<lambda>c. ExecError), e_parse = (\<lambda>s. Some ?d),
               e_folders = Some [js ''/root''], e_diagnostics = [] \<rparr>"
  have shapes: "\<not> spec_singleIssue ?u" "\<not> spec_array ?u" "\<not> spec_wrapped ?u"
    "\<not> spec_singleIssue ?d" "\<not> spec_array ?d" "\<not> spec_wrapped ?d"
    by (simp_all add: spec_singleIssue_def spec_array_def spec_wrapped_def isArray_def js_def)
  have u: "parseJsonOutput (js ''/'') ?u (js ''/root'') = Inr []"
    using parseJsonOutput_unrecognized[where jsonOutput = ?u and cwd = "js ''/''"
        and workspaceRoot = "js ''/root''"] shapes
    by (simp add: js_def)
  have d: "parseJsonOutput (js ''/'') ?d (js ''/root'') = Inl TypeError"
    using parseJsonOutput_unrecognized[where jsonOutput = ?d and cwd = "js ''/''"
        and workspaceRoot = "js ''/root''"] shapes
    by (simp add: js_def)
  have au: "afterJsonExec ?eu (js ''/root'') (ExecOk (js ''{\"unrelatedField\":1}'') [])
            = ([JsonParse, DecodeJson], Finished [])"
    using parseJsonOutput_unrecognized[where jsonOutput = ?u and e = ?eu
        and workspaceRoot = "js ''/root''" and stdout = "js ''{\"unrelatedField\":1}''"
        and stderr = "[]" and issues = "[]"] u
    by simp
  have ad: "afterJsonExec ?ed (js ''/root'') (ExecOk (js ''{\"diagnostics\":5}'') [])
            = ([JsonParse, DecodeJson], FallBackToText)"
    using parseJsonOutput_unrecognized[where jsonOutput = ?d and e = ?ed
        and workspaceRoot = "js ''/root''" and stdout = "js ''{\"diagnostics\":5}''"
        and stderr = "[]" and err = TypeError] d
    by simp
  from shapes u d au ad show ?thesis by blast
qed

section \<open>Doubles\<close>

lemma bitLength_zero: "bitLength 0 = 0"
  by (simp add: bitLength.simps)

lemma bitLength_pos: "0 < n \<Longrightarrow> bitLength n = Suc (bitLength (n div 2))"
  by (subst bitLength.simps) simp

lemma bitLength_lower: "0 < n \<Longrightarrow> 2 ^ (bitLength n - 1) \<le> n"
proof (induction n rule: bitLength.induct)
  case (1 n)
  show ?case
  proof (cases "n div 2 = 0")
    case True
    with "1.prems" show ?thesis by (simp add: bitLength_pos bitLength_zero)
  next
    case False
    with "1.IH" "1.prems" have "2 ^ (bitLength (n div 2) - 1) \<le> n div 2" by simp
    moreover from False have "0 < bitLength (n div 2)" by (simp add: bitLength_pos)
    ultimately have "2 ^ bitLength (n div 2) \<le> 2 * (n div 2)"
      by (cases "bitLength (n div 2)") simp_all
    with "1.prems" show ?thesis by (simp add: bitLength_pos)
  qed
qed

lemma bitLength_upper: "n < 2 ^ bitLength n"
proof (induction n rule: bitLength.induct)
  case (1 n)
  show ?case
  proof (cases "n = 0")
    case True
    then show ?thesis by (simp add: bitLength_zero)
  next
    case False
    with "1.IH" have "n div 2 < 2 ^ bitLength (n div 2)" by simp
    then have "n < 2 * 2 ^ bitLength (n div 2)" by linarith
    with False show ?thesis by (simp add: bitLength_pos)
  qed
qed

lemma bitLength_le: "n < 2 ^ k \<Longrightarrow> bitLength n \<le> k"
proof (rule ccontr)
  assume n: "n < 2 ^ k" and len: "\<not> bitLength n \<le> k"
  then have k: "k \<le> bitLength n - 1"
    by simp
  have pos: "0 < n"
  proof (rule ccontr)
    assume "\<not> 0 < n"
    then have "bitLength n = 0" by (simp add: bitLength_zero)
    with len show False by simp
  qed
  from k have "(2::nat) ^ k \<le> 2 ^ (bitLength n - 1)"
    by (rule power_increasing) simp
  with bitLength_lower[OF pos] n show False by linarith
qed

lemma pow2_nonneg: "0 \<le> k \<Longrightarrow> pow2 k = 2 ^ nat k"
  by (simp add: pow2_def)

lemma pow2_pos: "0 < pow2 k"
  by (simp add: pow2_def)

lemma floorLog2_nat:
  assumes "0 < n"
  shows "floorLog2 (of_nat n) = int (bitLength n) - 1"
proof -
  have q: "quotient_of (of_nat n) = (int n, 1)"
    using quotient_of_int[of "int n"] by (simp add: Rat.of_int_def)
  have one: "bitLength (Suc 0) = Suc 0"
    by (simp add: bitLength_pos bitLength_zero)
  from assms have len: "0 < bitLength n"
    by (simp add: bitLength_pos)
  have "(2::rat) ^ (bitLength n - 1) \<le> of_nat n"
    using bitLength_lower[OF assms] by (metis of_nat_le_iff of_nat_numeral of_nat_power)
  with len have "pow2 (int (bitLength n) - 1) \<le> of_nat n"
    by (simp add: pow2_def nat_diff_distrib')
  then show ?thesis
    using len by (simp add: floorLog2_def q one Let_def)
qed

lemma roundHalfEven_int: "roundHalfEven (of_int k) = k"
  by (simp add: roundHalfEven_def)

lemma roundHalfEven_nonneg: "0 \<le> q \<Longrightarrow> 0 \<le> roundHalfEven q"
  by (auto simp: roundHalfEven_def Let_def intro: add_nonneg_nonneg)

lemma roundHalfEven_floor: "\<lfloor>q\<rfloor> \<le> roundHalfEven q"
  by (simp add: roundHalfEven_def Let_def)

text \<open>A natural number scaled by a power of two with an exponent that is not positive.\<close>

lemma scaled_nat:
  assumes "p \<le> 0"
  shows "of_int (roundHalfEven (of_nat n / pow2 p)) * pow2 p = of_nat n"
proof -
  from assms have p: "pow2 p = 1 / 2 ^ nat (- p)"
    by (cases "p = 0") (simp_all add: pow2_def)
  have "of_nat n / pow2 p = of_int (int n * 2 ^ nat (- p))"
    by (simp add: p)
  then have "roundHalfEven (of_nat n / pow2 p) = int n * 2 ^ nat (- p)"
    by (simp only: roundHalfEven_int)
  then show ?thesis by (simp add: p)
qed

lemma roundDouble_exact:
  assumes "0 < n" and "n < 2 ^ 53"
  shows "roundDouble (of_nat n) = Some (of_nat n)"
proof -
  let ?p = "max (floorLog2 (of_nat n) - 52) (- 1074)"
  from bitLength_le[OF assms(2)] have "?p \<le> 0"
    by (simp add: floorLog2_nat[OF assms(1)])
  from scaled_nat[OF this, of n]
  have v: "of_int (roundHalfEven (of_nat n / pow2 ?p)) * pow2 ?p = of_nat n" .
  have "(of_nat n :: rat) < 2 ^ 53"
    using assms(2) by (metis of_nat_less_iff of_nat_numeral of_nat_power)
  also have "(2::rat) ^ 53 \<le> pow2 1024"
    by (simp add: pow2_def)
  finally have "\<not> pow2 1024 \<le> (of_nat n :: rat)" by simp
  with v show ?thesis by (simp add: roundDouble_def Let_def)
qed

lemma toDouble_exact: "n < 2 ^ 53 \<Longrightarrow> toDouble (of_nat n) = JNum (of_nat n)"
  by (cases "n = 0") (simp_all add: toDouble_def roundDouble_exact)

lemma roundDouble_nat:
  assumes "roundDouble (of_nat n) = Some v"
  shows "\<exists>k. v = of_nat k"
proof -
  let ?p = "max (floorLog2 (of_nat n) - 52) (- 1074)"
  from assms have v: "v = of_int (roundHalfEven (of_nat n / pow2 ?p)) * pow2 ?p"
    by (simp add: roundDouble_def Let_def split: if_splits)
  show ?thesis
  proof (cases "?p \<le> 0")
    case True
    from scaled_nat[OF this, of n] v show ?thesis by auto
  next
    case False
    then have p: "pow2 ?p = of_nat (2 ^ nat ?p)"
      by (simp add: pow2_def)
    have "0 \<le> roundHalfEven (of_nat n / pow2 ?p)"
      by (rule roundHalfEven_nonneg) (simp add: pow2_pos less_imp_le)
    then obtain m where m: "roundHalfEven (of_nat n / pow2 ?p) = int m"
      using nonneg_int_cases by blast
    have "v = of_int (int m) * pow2 ?p"
      by (simp only: v m)
    then have "v = of_int (int m) * of_nat (2 ^ nat ?p)"
      by (simp only: p)
    then have "v = of_nat (m * 2 ^ nat ?p)"
      by simp
    then show ?thesis by blast
  qed
qed

lemma toDouble_nat: "toDouble (of_nat n) = JInfinity \<or> (\<exists>k. toDouble (of_nat n) = JNum (of_nat k))"
proof (cases "n = 0")
  case True
  then have "toDouble (of_nat n) = JNum (of_nat 0)" by (simp add: toDouble_def)
  then show ?thesis by blast
next
  case False
  show ?thesis
  proof (cases "roundDouble (of_nat n)")
    case None
    with False show ?thesis by (simp add: toDouble_def)
  next
    case (Some v)
    with roundDouble_nat[OF Some] False show ?thesis by (auto simp: toDouble_def)
  qed
qed

lemma toDouble_infinite:
  assumes "2 ^ 1024 \<le> n"
  shows "toDouble (of_nat n) = JInfinity"
proof -
  from assms have pos: "0 < n"
    by (cases "n = 0") simp_all
  have "(2::nat) ^ 1024 < 2 ^ bitLength n"
    using assms bitLength_upper[of n] by linarith
  then have len: "1024 < bitLength n"
    by (rule power_less_imp_less_exp[rotated]) simp
  then have "\<exists>q. bitLength n - 1 = 52 + q \<and> 972 \<le> q"
    by (intro exI[of _ "bitLength n - 53"]) simp
  then obtain q where q: "bitLength n - 1 = 52 + q" and big: "972 \<le> q"
    by blast
  from len q have l: "floorLog2 (of_nat n) = int (52 + q)"
    using floorLog2_nat[OF pos] by simp
  have p: "max (floorLog2 (of_nat n) - 52) (- 1074) = int q"
    unfolding l by simp
  have pp: "pow2 (int q) = 2 ^ q"
    by (simp add: pow2_def)
  have "(2::rat) ^ (52 + q) \<le> of_nat n"
    using bitLength_lower[OF pos] unfolding q
    by (metis of_nat_le_iff of_nat_numeral of_nat_power)
  then have "(2::rat) ^ 52 * 2 ^ q \<le> of_nat n"
    by (simp only: power_add)
  then have "(2::rat) ^ 52 \<le> of_nat n / 2 ^ q"
    by (simp add: pos_le_divide_eq)
  then have "of_int (2 ^ 52) \<le> (of_nat n / 2 ^ q :: rat)"
    by simp
  then have "2 ^ 52 \<le> \<lfloor>(of_nat n / 2 ^ q :: rat)\<rfloor>"
    by (simp only: le_floor_iff)
  with roundHalfEven_floor[of "of_nat n / 2 ^ q"]
  have "2 ^ 52 \<le> roundHalfEven (of_nat n / 2 ^ q)"
    by linarith
  then have "of_int (2 ^ 52) \<le> (of_int (roundHalfEven (of_nat n / 2 ^ q)) :: rat)"
    by (simp only: of_int_le_iff)
  then have m: "(2::rat) ^ 52 \<le> of_int (roundHalfEven (of_nat n / 2 ^ q))"
    by simp
  from big have "(2::rat) ^ 1024 \<le> 2 ^ (52 + q)"
    by (intro power_increasing) simp_all
  also have "\<dots> = 2 ^ 52 * 2 ^ q"
    by (simp only: power_add)
  also from m have "\<dots> \<le> of_int (roundHalfEven (of_nat n / 2 ^ q)) * 2 ^ q"
    by (rule mult_right_mono) simp
  finally have "pow2 1024 \<le> of_int (roundHalfEven (of_nat n / pow2 (int q))) * pow2 (int q)"
    unfolding pp by (simp add: pow2_def)
  then have "roundDouble (of_nat n) = None"
    by (simp add: roundDouble_def Let_def p)
  with pos show ?thesis by (simp add: toDouble_def)
qed

lemma parseInt_small: "decimalValue g < 2 ^ 53 \<Longrightarrow> parseInt g = JNum (of_nat (decimalValue g))"
  by (simp add: parseInt_def toDouble_exact)

section \<open>The digits that the pattern captures\<close>

lemma first_some_SomeE:
  assumes "first_some f xs = Some y"
  obtains x where "x \<in> set xs" and "f x = Some y"
  using assms by (induction xs) (auto split: option.splits)

lemma matchItems_PlainE:
  assumes "matchItems (Plain a # rest) s caps = Some r"
  obtains n where "n \<in> set (candidates a s)" and "matchItems rest (drop n s) caps = Some r"
  using assms by (auto elim: first_some_SomeE)

lemma matchItems_GroupE:
  assumes "matchItems (Group a # rest) s caps = Some r"
  obtains n where "n \<in> set (candidates a s)"
    and "matchItems rest (drop n s) (caps @ [take n s]) = Some r"
  using assms by (auto elim: first_some_SomeE)

lemma candidates_Plus:
  assumes "n \<in> set (candidates (Plus c) s)"
  shows "take n s \<noteq> [] \<and> list_all (in_class c) (take n s)"
proof -
  from assms have n: "1 \<le> n" "n \<le> length (takeWhile (in_class c) s)"
    by auto
  have "take n s = take n (takeWhile (in_class c) s @ dropWhile (in_class c) s)"
    by simp
  also have "\<dots> = take n (takeWhile (in_class c) s)"
    using n(2) by (simp only: take_append) simp
  finally have t: "take n s = take n (takeWhile (in_class c) s)" .
  have "list_all (in_class c) (takeWhile (in_class c) s)"
    by (auto simp: list_all_iff dest: set_takeWhileD)
  then have "list_all (in_class c) (take n (takeWhile (in_class c) s))"
    by (auto simp: list_all_iff dest: in_set_takeD)
  moreover from n have "take n (takeWhile (in_class c) s) \<noteq> []"
    by (cases "takeWhile (in_class c) s") auto
  ultimately show ?thesis by (simp add: t)
qed

lemma issueStart_digits:
  assumes "matchItems issueStart l [] = Some [g1, g2, g3, g4, g5]"
  shows "g4 \<noteq> [] \<and> list_all isDigit g4 \<and> g5 \<noteq> [] \<and> list_all isDigit g5"
proof -
  from assms obtain s4 n4 s5 n5 where
    "n4 \<in> set (candidates (Plus Digit) s4)" "g4 = take n4 s4"
    "n5 \<in> set (candidates (Plus Digit) s5)" "g5 = take n5 s5"
    unfolding issueStart_def
    by (elim matchItems_PlainE matchItems_GroupE) simp
  with candidates_Plus[of n4 Digit s4] candidates_Plus[of n5 Digit s5]
  show ?thesis by (simp add: list_all_iff)
qed

section \<open>Lines and columns of decoded issues\<close>

lemmas re_eval = issueStart_def bullet_def js_def startsWith_def isSpace_def isWhiteSpace_def
  isLineTerminator_def isDigit_def

lemmas number_eval = toDouble_def roundDouble_def floorLog2_def roundHalfEven_def pow2_def
  bitLength.simps Let_def

lemmas text_eval = decodeText_def pushCurrent_def finished_def trim_def parseInt_def
  decimalValue_def mapSeverity_def toLowerCase_def number_eval

lemmas relative_eval = path_relative_def resolve_def isAbsolute_def normalizeSegments_def
  normalizeStep_def

text \<open>
  Every issue that the loop adds is the finished form of an issue that a line of the
  report has started; \<open>Q\<close> is what such a line leaves in the issue for good.
\<close>

lemma pushCurrent_from:
  assumes "\<forall>c. cur = Some c \<longrightarrow> Q c"
  shows "set (pushCurrent issues cur) \<subseteq> set issues \<union> finished ` {c. Q c}"
  using assms by (auto simp: pushCurrent_def split: option.splits)

lemma parseLines_from:
  assumes start: "\<And>l g1 g2 g3 g4 g5 c. l \<in> set ls
      \<Longrightarrow> matchItems issueStart l [] = Some [g1, g2, g3, g4, g5]
      \<Longrightarrow> p_line c = parseInt g4 \<Longrightarrow> p_column c = parseInt g5 \<Longrightarrow> Q c"
    and continue: "\<And>c m. Q c \<Longrightarrow> Q (c\<lparr> p_message := m \<rparr>)"
    and cur: "\<forall>c. cur = Some c \<longrightarrow> Q c"
  shows "set (parseLines cwd workspaceRoot ls issues cur) \<subseteq> set issues \<union> finished ` {c. Q c}"
  using start cur
proof (induction ls arbitrary: issues cur)
  case Nil
  then show ?case using pushCurrent_from[of cur Q issues] by simp
next
  case (Cons l ls)
  have rest: "Q c"
    if "l' \<in> set ls" "matchItems issueStart l' [] = Some [g1, g2, g3, g4, g5]"
      "p_line c = parseInt g4" "p_column c = parseInt g5" for l' g1 g2 g3 g4 g5 c
    using Cons.prems(1)[of l' g1 g2 g3 g4 g5 c] that by simp
  show ?case
  proof (cases "\<exists>g1 g2 g3 g4 g5. matchItems issueStart l [] = Some [g1, g2, g3, g4, g5]")
    case True
    then obtain g1 g2 g3 g4 g5 where m: "matchItems issueStart l [] = Some [g1, g2, g3, g4, g5]"
      by blast
    let ?c = "\<lparr> p_severity = mapSeverity g1, p_message = trim g2,
                p_file = path_relative cwd workspaceRoot g3,
                p_line = parseInt g4, p_column = parseInt g5 \<rparr>"
    have eq: "parseLines cwd workspaceRoot (l # ls) issues cur
              = parseLines cwd workspaceRoot ls (pushCurrent issues cur) (Some ?c)"
      by (simp add: m)
    have "Q ?c"
      by (rule Cons.prems(1)[OF _ m]) simp_all
    then have "set (parseLines cwd workspaceRoot ls (pushCurrent issues cur) (Some ?c))
               \<subseteq> set (pushCurrent issues cur) \<union> finished ` {c. Q c}"
      by (intro Cons.IH[OF rest]) simp_all
    with pushCurrent_from[OF Cons.prems(2), of issues] show ?thesis
      unfolding eq by blast
  next
    case False
    then have "\<exists>cur'. parseLines cwd workspaceRoot (l # ls) issues cur
                        = parseLines cwd workspaceRoot ls issues cur'
                 \<and> (cur' = cur \<or> (\<exists>c m. cur = Some c \<and> cur' = Some (c\<lparr> p_message := m \<rparr>)))"
      by (simp split: option.splits list.splits) blast
    then obtain cur' where
      eq: "parseLines cwd workspaceRoot (l # ls) issues cur
           = parseLines cwd workspaceRoot ls issues cur'"
      and cur': "cur' = cur \<or> (\<exists>c m. cur = Some c \<and> cur' = Some (c\<lparr> p_message := m \<rparr>))"
      by blast
    from cur' Cons.prems(2) continue have "\<forall>c. cur' = Some c \<longrightarrow> Q c"
      by auto
    then show ?thesis
      unfolding eq by (intro Cons.IH[OF rest]) simp_all
  qed
qed

lemma decodeText_lines:
  assumes "i \<in> set (decodeText cwd workspaceRoot stdout)"
  shows "\<exists>l g1 g2 g3 g4 g5. l \<in> set (split_on 10 stdout)
           \<and> matchItems issueStart l [] = Some [g1, g2, g3, g4, g5]
           \<and> g4 \<noteq> [] \<and> list_all isDigit g4 \<and> g5 \<noteq> [] \<and> list_all isDigit g5
           \<and> line i = parseInt g4 \<and> column i = parseInt g5"
proof -
  let ?Q = "\<lambda>c. \<exists>l g1 g2 g3 g4 g5. l \<in> set (split_on 10 stdout)
           \<and> matchItems issueStart l [] = Some [g1, g2, g3, g4, g5]
           \<and> p_line c = parseInt g4 \<and> p_column c = parseInt g5"
  have "set (parseLines cwd workspaceRoot (split_on 10 stdout) [] None)
        \<subseteq> set [] \<union> finished ` {c. ?Q c}"
    by (rule parseLines_from) (blast, simp, simp)
  moreover from assms have "i \<in> set (parseLines cwd workspaceRoot (split_on 10 stdout) [] None)"
    by (simp add: decodeText_def)
  ultimately have "i \<in> finished ` {c. ?Q c}"
    by auto
  then obtain c where c: "?Q c" and i: "i = finished c"
    by blast
  from c obtain l g1 g2 g3 g4 g5 where l: "l \<in> set (split_on 10 stdout)"
    and m: "matchItems issueStart l [] = Some [g1, g2, g3, g4, g5]"
    and p: "p_line c = parseInt g4" "p_column c = parseInt g5"
    by blast
  from i p have "line i = parseInt g4" "column i = parseInt g5"
    by (simp_all add: finished_def)
  with l m issueStart_digits[OF m] show ?thesis by blast
qed

lemma diagnosticIssue_lines:
  "\<exists>n m. line (diagnosticIssue f d) = JNum (of_nat n) \<and> 1 \<le> n
         \<and> column (diagnosticIssue f d) = JNum (of_nat m) \<and> 1 \<le> m"
proof -
  have "line (diagnosticIssue f d) = JNum (of_nat (d_line d + 1))"
    and "column (diagnosticIssue f d) = JNum (of_nat (d_character d + 1))"
    by (simp_all add: diagnosticIssue_def)
  moreover have "1 \<le> d_line d + 1" and "1 \<le> d_character d + 1"
    by simp_all
  ultimately show ?thesis by blast
qed

lemma snapshot_from:
  "i \<in> set (getDiagnosticsFromEditor cwd folders snapshot) \<Longrightarrow> \<exists>f d. i = diagnosticIssue f d"
  by (auto simp: getDiagnosticsFromEditor_def Let_def split: if_splits)

lemma snapshot_lines:
  "i \<in> set (getDiagnosticsFromEditor cwd folders snapshot)
   \<Longrightarrow> \<exists>n m. line i = JNum (of_nat n) \<and> 1 \<le> n \<and> column i = JNum (of_nat m) \<and> 1 \<le> m"
  using snapshot_from[of i cwd folders snapshot] diagnosticIssue_lines by blast

lemma parseEach_from:
  "parseEach cwd xs workspaceRoot = Inr issues \<Longrightarrow> i \<in> set issues
   \<Longrightarrow> \<exists>x \<in> set xs. parseIssue cwd x workspaceRoot = Inr i"
  by (induction xs arbitrary: issues) (auto split: sum.splits)

text \<open>
  An issue of the JSON decoder is \<^verbatim>\<open>_parseIssue\<close> of the payload itself, of an element
  of the payload, or of an element of its \<^verbatim>\<open>diagnostics\<close>.
\<close>

lemma parseJsonOutput_from:
  assumes "parseJsonOutput cwd v workspaceRoot = Inr issues" and "i \<in> set issues"
  shows "\<exists>x. (x = v \<or> (\<exists>xs. v = JArr xs \<and> x \<in> set xs)
              \<or> (\<exists>xs. field v (js ''diagnostics'') = Some (JArr xs) \<and> x \<in> set xs))
            \<and> parseIssue cwd x workspaceRoot = Inr i"
proof -
  consider (single) "parseIssue cwd v workspaceRoot = Inr i"
    | (array) xs where "v = JArr xs" "parseEach cwd xs workspaceRoot = Inr issues"
    | (wrapped) xs where "field v (js ''diagnostics'') = Some (JArr xs)"
        "parseEach cwd xs workspaceRoot = Inr issues"
    using assms
    by (auto simp: parseJsonOutput_def isArray_def
        split: if_splits sum.splits json.splits option.splits)
  then show ?thesis
  proof cases
    case single
    then show ?thesis by blast
  next
    case array
    with parseEach_from[OF array(2) assms(2)] show ?thesis by blast
  next
    case wrapped
    with parseEach_from[OF wrapped(2) assms(2)] show ?thesis by blast
  qed
qed

lemma parseIssue_fields:
  assumes "parseIssue cwd x workspaceRoot = Inr i"
  shows "line i = the (or_else (or_else (opt_field (field x (js ''location'')) (js ''startLine''))
                                        (field x (js ''line'')))
                               (Some (JNum 1)))"
    and "column i = the (or_else (or_else (opt_field (field x (js ''location'')) (js ''startColumn''))
                                          (field x (js ''column'')))
                                 (Some (JNum 1)))"
  using assms
  by (auto simp: parseIssue_def split: if_splits option.splits json.splits)

lemma or_else_default:
  "the (or_else (or_else a b) (Some d)) = (if truthy a then the a else if truthy b then the b else d)"
  by (simp add: or_else_def)

lemma decodeText_zero:
  "decodeText (js ''/'') (js ''/'')
     (js ''error '' @ [bullet] @ js '' m '' @ [bullet] @ js '' a.dart:0:0'')
   = [\<lparr> severity = Error, code = JStr (js ''analyzer''), message = JStr (js ''m''),
        file = js ''a.dart'', line = JNum 0, column = JNum 0 \<rparr>]"
  by (simp add: re_eval text_eval relative_eval)

lemma parseIssue_negative:
  "parseIssue (js ''/'')
     (JObj [(js ''severity'', JStr (js ''error'')), (js ''code'', JStr (js ''E1'')),
            (js ''line'', JNum (- 5)), (js ''column'', JNum 0)])
     (js ''/root'')
   = Inr \<lparr> severity = Error, code = JStr (js ''E1''), message = JStr [], file = [],
           line = JNum (- 5), column = JNum 1 \<rparr>"
  by (simp add: json_eval path_eval mapSeverity_def toLowerCase_def)

lemma floor_numeral_div: "\<lfloor>(numeral a / numeral b :: rat)\<rfloor> = numeral a div numeral b"
  using floor_divide_of_int_eq[of "numeral a" "numeral b", where ?'a = rat] by simp

text \<open>Above \<open>2 ^ 53\<close> the line is rounded, and from \<open>2 ^ 1024\<close> on it is \<^verbatim>\<open>Infinity\<close>.\<close>

lemma parseInt_rounds: "parseInt (js ''9007199254740993'') = JNum 9007199254740992"
proof -
  have d: "decimalValue (js ''9007199254740993'') = 9007199254740993"
    by (simp add: decimalValue_def js_def)
  have l: "floorLog2 (of_nat 9007199254740993) = 53"
    by (subst floorLog2_nat) (simp_all add: bitLength.simps)
  have "roundDouble 9007199254740993 = Some 9007199254740992"
    using l by (simp add: roundDouble_def roundHalfEven_def pow2_def Let_def floor_numeral_div)
  then show ?thesis
    by (simp add: parseInt_def d toDouble_def)
qed

text \<open>
  C2, as stated, fails. The JSON decoder copies the line \<open>-5\<close> of the payload
  \<^verbatim>\<open>{"severity":"error","code":"E1","line":-5,"column":0}\<close> into the issue, and the text
  decoder reads line 0 and column 0 from a report line that ends in \<^verbatim>\<open>a.dart:0:0\<close>.
\<close>

theorem decoded_line_below_one:
  "parseJsonOutput (js ''/'')
     (JObj [(js ''severity'', JStr (js ''error'')), (js ''code'', JStr (js ''E1'')),
            (js ''line'', JNum (- 5)), (js ''column'', JNum 0)])
     (js ''/root'')
   = Inr [\<lparr> severity = Error, code = JStr (js ''E1''), message = JStr [], file = [],
            line = JNum (- 5), column = JNum 1 \<rparr>]
   \<and> decodeText (js ''/'') (js ''/'')
       (js ''error '' @ [bullet] @ js '' m '' @ [bullet] @ js '' a.dart:0:0'')
     = [\<lparr> severity = Error, code = JStr (js ''analyzer''), message = JStr (js ''m''),
          file = js ''a.dart'', line = JNum 0, column = JNum 0 \<rparr>]"
proof -
  have "parseJsonOutput (js ''/'')
     (JObj [(js ''severity'', JStr (js ''error'')), (js ''code'', JStr (js ''E1'')),
            (js ''line'', JNum (- 5)), (js ''column'', JNum 0)])
     (js ''/root'')
   = Inr [\<lparr> severity = Error, code = JStr (js ''E1''), message = JStr [], file = [],
            line = JNum (- 5), column = JNum 1 \<rparr>]"
    unfolding parseJsonOutput_def parseIssue_negative by (simp add: js_def)
  with decodeText_zero show ?thesis by blast
qed

text \<open>
  C2, amended. Every issue of the diagnostics snapshot decoder has a line and a column
  that are integers of at least 1. Every issue of the text decoder has been started by a
  line of the report that matches the pattern, and its line and column are
  \<^verbatim>\<open>parseInt\<close> of the two groups of digits of that line: the decimal number itself
  below \<open>2 ^ 53\<close>, \<^verbatim>\<open>Infinity\<close> from \<open>2 ^ 1024\<close> on, and in every case a natural
  number, which can be 0, or \<^verbatim>\<open>Infinity\<close>. Every issue of the JSON decoder is
  \<^verbatim>\<open>_parseIssue\<close> of the payload, of an element of it or of an element of its
  \<^verbatim>\<open>diagnostics\<close>, and the line of \<^verbatim>\<open>_parseIssue\<close> is the \<^verbatim>\<open>startLine\<close> of the location
  if that is truthy, else the top-level \<^verbatim>\<open>line\<close> if that is truthy, else 1, and likewise
  for the column: the default 1 stands in for a missing or falsy value, and a value that
  is supplied is copied as it is.
\<close>

theorem decoded_line_column:
  "(i \<in> set (getDiagnosticsFromEditor cwd folders snapshot)
      \<longrightarrow> (\<exists>n m. line i = JNum (of_nat n) \<and> 1 \<le> n \<and> column i = JNum (of_nat m) \<and> 1 \<le> m))
   \<and> (i \<in> set (decodeText cwd workspaceRoot stdout)
      \<longrightarrow> (\<exists>l g1 g2 g3 g4 g5. l \<in> set (split_on 10 stdout)
             \<and> matchItems issueStart l [] = Some [g1, g2, g3, g4, g5]
             \<and> g4 \<noteq> [] \<and> list_all isDigit g4 \<and> g5 \<noteq> [] \<and> list_all isDigit g5
             \<and> line i = parseInt g4 \<and> column i = parseInt g5))
   \<and> (decimalValue g < 2 ^ 53 \<longrightarrow> parseInt g = JNum (of_nat (decimalValue g)))
   \<and> (2 ^ 1024 \<le> decimalValue g \<longrightarrow> parseInt g = JInfinity)
   \<and> (parseInt g = JInfinity \<or> (\<exists>n. parseInt g = JNum (of_nat n)))
   \<and> (parseJsonOutput cwd v workspaceRoot = Inr issues \<and> i \<in> set issues
      \<longrightarrow> (\<exists>x. (x = v \<or> (\<exists>xs. v = JArr xs \<and> x \<in> set xs)
                   \<or> (\<exists>xs. field v (js ''diagnostics'') = Some (JArr xs) \<and> x \<in> set xs))
               \<and> parseIssue cwd x workspaceRoot = Inr i))
   \<and> (parseIssue cwd x workspaceRoot = Inr i
      \<longrightarrow> line i = (if truthy (opt_field (field x (js ''location'')) (js ''startLine''))
                     then the (opt_field (field x (js ''location'')) (js ''startLine''))
                     else if truthy (field x (js ''line'')) then the (field x (js ''line''))
                     else JNum 1)
        \<and> column i = (if truthy (opt_field (field x (js ''location'')) (js ''startColumn''))
                       then the (opt_field (field x (js ''location'')) (js ''startColumn''))
                       else if truthy (field x (js ''column'')) then the (field x (js ''column''))
                       else JNum 1))"
proof -
  have small: "decimalValue g < 2 ^ 53 \<longrightarrow> parseInt g = JNum (of_nat (decimalValue g))"
    using parseInt_small by blast
  have large: "2 ^ 1024 \<le> decimalValue g \<longrightarrow> parseInt g = JInfinity"
    using toDouble_infinite[of "decimalValue g"] by (simp add: parseInt_def)
  have natural: "parseInt g = JInfinity \<or> (\<exists>n. parseInt g = JNum (of_nat n))"
    using toDouble_nat[of "decimalValue g"] by (simp add: parseInt_def)
  from small large natural
    snapshot_lines[of i cwd folders snapshot] decodeText_lines[of i cwd workspaceRoot stdout]
    parseJsonOutput_from[of cwd v workspaceRoot issues i]
    parseIssue_fields[of cwd x workspaceRoot i, unfolded or_else_default]
  show ?thesis by blast
qed

theorem decoded_line_column_witness:
  "(\<lparr> severity = Error, code = JStr (js ''unknown''), message = JStr (js ''m''),
       file = js ''a.dart'', line = JNum 1, column = JNum 1 \<rparr>
      \<in> set (getDiagnosticsFromEditor (js ''/'') (Some [js ''/root''])
               [(\<lparr> scheme = js ''file'', fsPath = js ''/root/a.dart'' \<rparr>,
                 [\<lparr> d_severity = 0, d_code = NoCode, d_message = js ''m'', d_line = 0,
                     d_character = 0 \<rparr>])])
    \<and> (\<exists>n m. JNum 1 = JNum (of_nat n) \<and> 1 \<le> n \<and> JNum 1 = JNum (of_nat m) \<and> 1 \<le> m))
   \<and> (\<lparr> severity = Error, code = JStr (js ''analyzer''), message = JStr (js ''m''),
         file = js ''a.dart'', line = JNum 0, column = JNum 0 \<rparr>
        \<in> set (decodeText (js ''/'') (js ''/'')
                 (js ''error '' @ [bullet] @ js '' m '' @ [bullet] @ js '' a.dart:0:0''))
      \<and> (\<exists>g4 g5. g4 \<noteq> [] \<and> list_all isDigit g4 \<and> g5 \<noteq> [] \<and> list_all isDigit g5
            \<and> JNum 0 = parseInt g4 \<and> JNum 0 = parseInt g5))
   \<and> (decimalValue (js ''10'') < 2 ^ 53 \<and> parseInt (js ''10'') = JNum 10)
   \<and> (parseJsonOutput (js ''/'')
         (JObj [(js ''severity'', JStr (js ''error'')), (js ''code'', JStr (js ''E1'')),
                (js ''line'', JNum (- 5)), (js ''column'', JNum 0)])
         (js ''/root'')
       = Inr [\<lparr> severity = Error, code = JStr (js ''E1''), message = JStr [], file = [],
                line = JNum (- 5), column = JNum 1 \<rparr>]
      \<and> parseIssue (js ''/'')
         (JObj [(js ''severity'', JStr (js ''error'')), (js ''code'', JStr (js ''E1'')),
                (js ''line'', JNum (- 5)), (js ''column'', JNum 0)])
         (js ''/root'')
       = Inr \<lparr> severity = Error, code = JStr (js ''E1''), message = JStr [], file = [],
               line = JNum (- 5), column = JNum 1 \<rparr>
      \<and> line \<lparr> severity = Error, code = JStr (js ''E1''), message = JStr [], file = [],
                 line = JNum (- 5), column = JNum 1 \<rparr> = JNum (- 5)
      \<and> column \<lparr> severity = Error, code = JStr (js ''E1''), message = JStr [], file = [],
                   line = JNum (- 5), column = JNum 1 \<rparr> = JNum 1)"
proof -
  let ?snap = "[(\<lparr> scheme = js ''file'', fsPath = js ''/root/a.dart'' \<rparr>,
                 [\<lparr> d_severity = 0, d_code = NoCode, d_message = js ''m'', d_line = 0,
                     d_character = 0 \<rparr>])]"
  let ?s = "\<lparr> severity = Error, code = JStr (js ''unknown''), message = JStr (js ''m''),
              file = js ''a.dart'', line = JNum 1, column = JNum 1 \<rparr>"
  let ?t = "\<lparr> severity = Error, code = JStr (js ''analyzer''), message = JStr (js ''m''),
              file = js ''a.dart'', line = JNum 0, column = JNum 0 \<rparr>"
  let ?j = "\<lparr> severity = Error, code = JStr (js ''E1''), message = JStr [], file = [],
              line = JNum (- 5), column = JNum 1 \<rparr>"
  let ?p = "JObj [(js ''severity'', JStr (js ''error'')), (js ''code'', JStr (js ''E1'')),
                  (js ''line'', JNum (- 5)), (js ''column'', JNum 0)]"
  let ?report = "js ''error '' @ [bullet] @ js '' m '' @ [bullet] @ js '' a.dart:0:0''"
  have s_in: "?s \<in> set (getDiagnosticsFromEditor (js ''/'') (Some [js ''/root'']) ?snap)"
    by (simp add: getDiagnosticsFromEditor_def diagnosticIssue_def firstFolder_def endsWith_def
        mapDiagnosticSeverity_def codeString_def relative_eval js_def)
  have t_in: "?t \<in> set (decodeText (js ''/'') (js ''/'') ?report)"
    unfolding decodeText_zero by simp
  have s_ok: "\<exists>n m. line ?s = JNum (of_nat n) \<and> 1 \<le> n \<and> column ?s = JNum (of_nat m) \<and> 1 \<le> m"
    using decoded_line_column[where i = ?s and cwd = "js ''/''" and folders = "Some [js ''/root'']"
        and snapshot = ?snap] s_in
    by blast
  have t_ok: "\<exists>g4 g5. g4 \<noteq> [] \<and> list_all isDigit g4 \<and> g5 \<noteq> [] \<and> list_all isDigit g5
            \<and> line ?t = parseInt g4 \<and> column ?t = parseInt g5"
    using decoded_line_column[where i = ?t and cwd = "js ''/''" and workspaceRoot = "js ''/''"
        and stdout = ?report] t_in
    by blast
  have ten: "decimalValue (js ''10'') = 10"
    by (simp add: decimalValue_def js_def)
  have small: "decimalValue (js ''10'') < 2 ^ 53"
    unfolding ten by simp
  have ten_ok: "parseInt (js ''10'') = JNum 10"
    using decoded_line_column[where g = "js ''10''"] small by (simp add: ten)
  have j_all: "parseJsonOutput (js ''/'') ?p (js ''/root'') = Inr [?j]"
    unfolding parseJsonOutput_def parseIssue_negative by (simp add: js_def)
  have j_ok: "line ?j = JNum (- 5) \<and> column ?j = JNum 1"
    using decoded_line_column[where i = ?j and cwd = "js ''/''" and workspaceRoot = "js ''/root''"
        and x = ?p] parseIssue_negative
    by (simp add: js_def)
  from s_in s_ok t_in t_ok small ten_ok j_all j_ok parseIssue_negative show ?thesis by simp
qed

section \<open>The text report of the specification\<close>

text \<open>
  The report of three lines decodes to two issues, the continuation line joined to the
  first message by one space; both files have gone through \<^verbatim>\<open>path.relative\<close>.
\<close>

lemma decodeText_report:
  "decodeText cwd workspaceRoot
     (js ''error '' @ [bullet] @ js '' Unused import '' @ [bullet] @ js '' lib/a.dart:10:1'' @ [10]
      @ js ''  this import is unused'' @ [10]
      @ js ''warning '' @ [bullet] @ js '' Missing return '' @ [bullet] @ js '' lib/b.dart:20:3'')
   = [\<lparr> severity = Error, code = JStr (js ''analyzer''),
        message = JStr (js ''Unused import this import is unused''),
        file = path_relative cwd workspaceRoot (js ''lib/a.dart''), line = JNum 10,
        column = JNum 1 \<rparr>,
      \<lparr> severity = Warning, code = JStr (js ''analyzer''),
        message = JStr (js ''Missing return''),
        file = path_relative cwd workspaceRoot (js ''lib/b.dart''), line = JNum 20,
        column = JNum 3 \<rparr>]"
  by (simp add: re_eval text_eval)

lemma relative_outside_root:
  "path_relative (js ''/'') (js ''/root'') (js ''lib/a.dart'') = js ''../lib/a.dart''"
  "path_relative (js ''/'') (js ''/root'') (js ''lib/b.dart'') = js ''../lib/b.dart''"
  by (simp_all add: relative_eval js_def)

text \<open>
  Where the working directory of the process is the root itself, the files come out as
  the report has them.
\<close>

lemma relative_inside_root:
  "path_relative (js ''/root'') (js ''/root'') (js ''lib/a.dart'') = js ''lib/a.dart''"
  "path_relative (js ''/root'') (js ''/root'') (js ''lib/b.dart'') = js ''lib/b.dart''"
  by (simp_all add: relative_eval js_def)

text \<open>
  C3. With the root \<^verbatim>\<open>/root\<close> and a process whose working directory is \<^verbatim>\<open>/\<close>, the
  two issues have the messages, lines, columns and codes that the claim gives, and the
  files \<^verbatim>\<open>../lib/a.dart\<close> and \<^verbatim>\<open>../lib/b.dart\<close>, where the claim gives \<^verbatim>\<open>lib/a.dart\<close>
  and \<^verbatim>\<open>lib/b.dart\<close>: \<^verbatim>\<open>path.relative\<close> resolves the relative path of the report
  against the working directory of the process, not against the root.
\<close>

theorem decodeText_report_outside_root:
  "decodeText (js ''/'') (js ''/root'')
     (js ''error '' @ [bullet] @ js '' Unused import '' @ [bullet] @ js '' lib/a.dart:10:1'' @ [10]
      @ js ''  this import is unused'' @ [10]
      @ js ''warning '' @ [bullet] @ js '' Missing return '' @ [bullet] @ js '' lib/b.dart:20:3'')
   = [\<lparr> severity = Error, code = JStr (js ''analyzer''),
        message = JStr (js ''Unused import this import is unused''),
        file = js ''../lib/a.dart'', line = JNum 10, column = JNum 1 \<rparr>,
      \<lparr> severity = Warning, code = JStr (js ''analyzer''),
        message = JStr (js ''Missing return''),
        file = js ''../lib/b.dart'', line = JNum 20, column = JNum 3 \<rparr>]"
  unfolding decodeText_report relative_outside_root by (rule refl)

section \<open>The path normalizer\<close>

lemma split_on_nonempty: "split_on c xs \<noteq> []"
  by (induction xs) (auto split: list.splits)

lemma split_on_append: "split_on c (xs @ c # ys) = split_on c xs @ split_on c ys"
proof (induction xs)
  case Nil
  show ?case by simp
next
  case (Cons x xs)
  obtain w ws where w: "split_on c xs = w # ws"
    using split_on_nonempty[of c xs] by (cases "split_on c xs") auto
  show ?case using Cons.IH w by simp
qed

lemma split_on_no_separator: "s \<in> set (split_on c xs) \<Longrightarrow> c \<notin> set s"
  by (induction xs arbitrary: s) (auto split: if_splits list.splits)

lemma normalizeStep_subset: "set (normalizeStep segs seg) \<subseteq> set segs \<union> ({seg} - {[]})"
  by (auto simp: normalizeStep_def dest: in_set_butlastD)

lemma foldl_normalizeStep_subset:
  "set (foldl normalizeStep acc segs) \<subseteq> set acc \<union> (set segs - {[]})"
proof (induction segs arbitrary: acc)
  case Nil
  show ?case by simp
next
  case (Cons seg segs)
  from Cons.IH[of "normalizeStep acc seg"] normalizeStep_subset[of acc seg]
  show ?case by auto
qed

lemma resolve_segments:
  assumes "seg \<in> set (resolve cwd p)"
  shows "seg \<noteq> [] \<and> 47 \<notin> set seg"
proof -
  from assms obtain s where "seg \<in> set (split_on 47 s)" and "seg \<noteq> []"
    using foldl_normalizeStep_subset[of "[]"]
    by (fastforce simp: resolve_def normalizeSegments_def)
  then show ?thesis using split_on_no_separator by blast
qed

lemma strip_common_suffix: "strip_common f t = (f', t') \<Longrightarrow> set t' \<subseteq> set t"
  by (induction f t rule: strip_common.induct) (auto split: if_splits)

lemma strip_common_prefix: "strip_common f (f @ t) = ([], t)"
  by (induction f) simp_all

lemma join_with_hd: "s \<noteq> [] \<Longrightarrow> hd (join_with sep (s # rest)) = hd s"
  by (cases rest) auto

lemma join_with_nonempty: "s \<noteq> [] \<Longrightarrow> join_with sep (s # rest) \<noteq> []"
  by (cases rest) auto

lemma join_with_not_absolute:
  assumes "\<forall>s \<in> set segs. s \<noteq> [] \<and> hd s \<noteq> 47"
  shows "\<not> isAbsolute (join_with sep segs)"
proof (cases segs)
  case Nil
  then show ?thesis by (simp add: isAbsolute_def)
next
  case (Cons s rest)
  with assms have "s \<noteq> []" "hd s \<noteq> 47" by auto
  with Cons join_with_hd[of s sep rest] join_with_nonempty[of s sep rest]
  show ?thesis by (auto simp: isAbsolute_def split: list.splits)
qed

lemma path_relative_not_absolute: "\<not> isAbsolute (path_relative cwd from to)"
proof -
  have "\<not> isAbsolute (join_with (js ''/'') (replicate (length f') (js ''..'') @ t'))"
    if sc: "strip_common (resolve cwd from) (resolve cwd to) = (f', t')" for f' t'
  proof (rule join_with_not_absolute, rule ballI)
    fix s assume "s \<in> set (replicate (length f') (js ''..'') @ t')"
    then consider "s = js ''..''" | "s \<in> set (resolve cwd to)"
      using strip_common_suffix[OF sc] by auto
    then show "s \<noteq> [] \<and> hd s \<noteq> 47"
    proof cases
      case 1
      then show ?thesis by (simp add: js_def)
    next
      case 2
      from resolve_segments[OF 2] show ?thesis by (cases s) auto
    qed
  qed
  then show ?thesis
    by (auto simp: path_relative_def Let_def isAbsolute_def split: prod.splits)
qed

lemma startsWith_absolute: "isAbsolute p \<Longrightarrow> startsWith s p \<Longrightarrow> isAbsolute s"
  by (cases p; cases s) (auto simp: isAbsolute_def startsWith_def)

lemma normalizePath_under_root:
  assumes "isAbsolute workspaceRoot"
  shows "normalizePath cwd (workspaceRoot @ js ''/a/b.dart'') workspaceRoot = js ''a/b.dart''"
proof -
  let ?to = "workspaceRoot @ js ''/a/b.dart''"
  have ne: "workspaceRoot \<noteq> []" and abs: "isAbsolute ?to"
    using assms by (auto simp: isAbsolute_def split: list.splits)
  have from_res: "resolve cwd workspaceRoot = normalizeSegments (split_on 47 workspaceRoot)"
    using assms ne by (simp add: resolve_def)
  have "split_on 47 ?to = split_on 47 workspaceRoot @ split_on 47 (js ''a/b.dart'')"
    using split_on_append[of 47 workspaceRoot "js ''a/b.dart''"] by (simp add: js_def)
  then have to_res: "resolve cwd ?to = resolve cwd workspaceRoot @ [js ''a'', js ''b.dart'']"
    using abs from_res
    by (simp add: resolve_def normalizeSegments_def) (simp add: js_def normalizeStep_def)
  have "path_relative cwd workspaceRoot ?to = js ''a/b.dart''"
    by (simp add: path_relative_def to_res strip_common_prefix) (simp add: js_def)
  then show ?thesis by (simp add: normalizePath_def startsWith_def)
qed

text \<open>
  C7, as stated, fails for a root that is not absolute: against the root \<^verbatim>\<open>a\<close> the
  relative path \<^verbatim>\<open>a/a/b\<close> becomes \<^verbatim>\<open>a/b\<close>, and normalizing that again gives \<^verbatim>\<open>b\<close>.
\<close>

theorem normalizePath_relative_root:
  "normalizePath (js ''/'') (js ''a/a/b'') (js ''a'') = js ''a/b''
   \<and> normalizePath (js ''/'') (js ''a/b'') (js ''a'') = js ''b''"
  by (simp add: path_eval js_def)

text \<open>
  C7, amended. For every path and root the Path Normalizer returns
  \<^verbatim>\<open>path.relative(root, rawPath)\<close> when the root is a string prefix of the path, and the
  path unchanged otherwise. For an absolute root it is idempotent, it returns a relative
  path unchanged, and it turns the root followed by \<^verbatim>\<open>/a/b.dart\<close> into \<^verbatim>\<open>a/b.dart\<close>.
\<close>

theorem normalizePath_idempotent:
  "normalizePath cwd rawPath workspaceRoot
     = (if startsWith rawPath workspaceRoot then path_relative cwd workspaceRoot rawPath
        else rawPath)
   \<and> (isAbsolute workspaceRoot
      \<longrightarrow> normalizePath cwd (normalizePath cwd rawPath workspaceRoot) workspaceRoot
          = normalizePath cwd rawPath workspaceRoot)
   \<and> (isAbsolute workspaceRoot \<and> \<not> isAbsolute rawPath
      \<longrightarrow> normalizePath cwd rawPath workspaceRoot = rawPath)
   \<and> (isAbsolute workspaceRoot
      \<longrightarrow> normalizePath cwd (workspaceRoot @ js ''/a/b.dart'') workspaceRoot = js ''a/b.dart'')"
proof -
  have idem: "normalizePath cwd (normalizePath cwd rawPath workspaceRoot) workspaceRoot
          = normalizePath cwd rawPath workspaceRoot" if "isAbsolute workspaceRoot"
  proof (cases "startsWith rawPath workspaceRoot")
    case True
    have "\<not> startsWith (path_relative cwd workspaceRoot rawPath) workspaceRoot"
      using startsWith_absolute[OF that] path_relative_not_absolute by blast
    with True show ?thesis by (simp add: normalizePath_def)
  next
    case False
    then show ?thesis by (simp add: normalizePath_def)
  qed
  have rel: "normalizePath cwd rawPath workspaceRoot = rawPath"
    if "isAbsolute workspaceRoot" "\<not> isAbsolute rawPath"
    using that startsWith_absolute[of workspaceRoot rawPath] by (auto simp: normalizePath_def)
  from idem rel normalizePath_under_root[of workspaceRoot cwd] show ?thesis
    by (simp add: normalizePath_def)
qed

theorem normalizePath_idempotent_witness:
  "isAbsolute (js ''/root'') \<and> \<not> isAbsolute (js ''lib/a.dart'')
   \<and> normalizePath (js ''/'') (normalizePath (js ''/'') (js ''/root/lib/a.dart'') (js ''/root''))
        (js ''/root'')
      = normalizePath (js ''/'') (js ''/root/lib/a.dart'') (js ''/root'')
   \<and> normalizePath (js ''/'') (js ''lib/a.dart'') (js ''/root'') = js ''lib/a.dart''
   \<and> normalizePath (js ''/'') (js ''/root'' @ js ''/a/b.dart'') (js ''/root'') = js ''a/b.dart''"
proof -
  have a: "isAbsolute (js ''/root'')" and r: "\<not> isAbsolute (js ''lib/a.dart'')"
    by (simp_all add: isAbsolute_def js_def)
  from a r normalizePath_idempotent[of "js ''/''" "js ''/root/lib/a.dart''" "js ''/root''"]
    normalizePath_idempotent[of "js ''/''" "js ''lib/a.dart''" "js ''/root''"]
  show ?thesis by blast
qed

section \<open>The fallback order of the orchestrator\<close>

text \<open>
  C4. When the command with \<^verbatim>\<open>--format=json\<close> returns an empty standard output and a
  standard error that is not empty, the run goes on with the plain command and makes no
  call of \<^verbatim>\<open>JSON.parse\<close> or of the JSON decoder: if the plain command returns, its
  output is decoded as a text report, and if it fails, the diagnostics snapshot is
  decoded.
\<close>

theorem runFlutterAnalyze_stderr_only:
  assumes "e_exec e (js ''flutter analyze --format=json'') = ExecOk stdout stderr"
    and "stderr \<noteq> []" and "stdout = []"
  shows "(e_exec e (js ''flutter analyze'') = ExecOk out err
            \<longrightarrow> runFlutterAnalyze e workspaceRoot
                = ([Exec (js ''flutter analyze --format=json''), Exec (js ''flutter analyze''),
                    DecodeText],
                   decodeText (e_cwd e) workspaceRoot out))
       \<and> (e_exec e (js ''flutter analyze'') = ExecError
            \<longrightarrow> runFlutterAnalyze e workspaceRoot
                = ([Exec (js ''flutter analyze --format=json''), Exec (js ''flutter analyze''),
                    DecodeSnapshot],
                   snapshotIssues e))
       \<and> JsonParse \<notin> set (fst (runFlutterAnalyze e workspaceRoot))
       \<and> DecodeJson \<notin> set (fst (runFlutterAnalyze e workspaceRoot))"
proof -
  have json: "afterJsonExec e workspaceRoot (e_exec e (jsonCommand Flutter)) = ([], FallBackToText)"
    using assms by (simp add: afterJsonExec_def jsonCommand_def)
  have run: "runFlutterAnalyze e workspaceRoot
      = (Exec (jsonCommand Flutter) # Exec (textCommand Flutter)
           # fst (afterTextExec e workspaceRoot (e_exec e (textCommand Flutter))),
         snd (afterTextExec e workspaceRoot (e_exec e (textCommand Flutter))))"
    by (simp add: runFlutterAnalyze_def runAnalyze_def json parseTextOutput_def split: prod.splits)
  show ?thesis
    unfolding run
    by (cases "e_exec e (textCommand Flutter)")
       (auto simp: afterTextExec_def jsonCommand_def textCommand_def)
qed

theorem runFlutterAnalyze_stderr_only_witness:
  "runFlutterAnalyze
     \<lparr> e_cwd = js ''/'',
       e_exec = (\<lambda>c. if c = js ''flutter analyze --format=json'' then ExecOk [] (js ''failed'')
                      else ExecOk [] []),
       e_parse = (\<lambda>s. None), e_folders = Some [js ''/root''], e_diagnostics = [] \<rparr>
     (js ''/root'')
   = ([Exec (js ''flutter analyze --format=json''), Exec (js ''flutter analyze''), DecodeText],
      [])
   \<and> runFlutterAnalyze
     \<lparr> e_cwd = js ''/'',
       e_exec = (\<lambda>c. if c = js ''flutter analyze --format=json'' then ExecOk [] (js ''failed'')
                      else ExecError),
       e_parse = (\<lambda>s. None), e_folders = Some [js ''/root''], e_diagnostics = [] \<rparr>
     (js ''/root'')
   = ([Exec (js ''flutter analyze --format=json''), Exec (js ''flutter analyze''),
       DecodeSnapshot], [])"
proof -
  let ?e1 = "\<lparr> e_cwd = js ''/'',
       e_exec = (\<lambda>c. if c = js ''flutter analyze --format=json'' then ExecOk [] (js ''failed'')
                      else ExecOk [] []),
       e_parse = (\<lambda>s. None), e_folders = Some [js ''/root''], e_diagnostics = [] \<rparr>"
  let ?e2 = "\<lparr> e_cwd = js ''/'',
       e_exec = (\<lambda>c. if c = js ''flutter analyze --format=json'' then ExecOk [] (js ''failed'')
                      else ExecError),
       e_parse = (\<lambda>s. None), e_folders = Some [js ''/root''], e_diagnostics = [] \<rparr>"
  have ne: "js ''failed'' \<noteq> []" "js ''flutter analyze'' \<noteq> js ''flutter analyze --format=json''"
    by (simp_all add: js_def)
  have 1: "runFlutterAnalyze ?e1 (js ''/root'')
     = ([Exec (js ''flutter analyze --format=json''), Exec (js ''flutter analyze''), DecodeText],
        decodeText (js ''/'') (js ''/root'') [])"
    using runFlutterAnalyze_stderr_only[of ?e1 "[]" "js ''failed''" "[]" "[]" "js ''/root''"] ne
    by simp
  have 2: "runFlutterAnalyze ?e2 (js ''/root'')
     = ([Exec (js ''flutter analyze --format=json''), Exec (js ''flutter analyze''),
         DecodeSnapshot], snapshotIssues ?e2)"
    using runFlutterAnalyze_stderr_only[of ?e2 "[]" "js ''failed''" _ _ "js ''/root''"] ne
    by simp
  have 3: "decodeText (js ''/'') (js ''/root'') [] = []"
    by (simp add: re_eval text_eval)
  have 4: "snapshotIssues ?e2 = []"
    by (simp add: snapshotIssues_def getDiagnosticsFromEditor_def)
  show ?thesis unfolding 1 2 3 4 by simp
qed

section \<open>One run at a time\<close>

lemma removeAt_single: "removeAt 0 [x] = []"
  by (simp add: removeAt_def)

lemma refresh_invariant:
  assumes "length (inFlight p) \<le> 1" and "isAnalyzing p = (inFlight p \<noteq> [])"
  shows "length (inFlight (refresh e a p)) \<le> 1
         \<and> isAnalyzing (refresh e a p) = (inFlight (refresh e a p) \<noteq> [])"
  using assms
  by (auto simp: refresh_def updateStatus_def Let_def split: option.splits list.splits)

lemma execReturns_invariant:
  assumes "length (inFlight p) \<le> 1" and "isAnalyzing p = (inFlight p \<noteq> [])"
  shows "length (inFlight (execReturns e k r u p)) \<le> 1
         \<and> isAnalyzing (execReturns e k r u p) = (inFlight (execReturns e k r u p) \<noteq> [])"
proof (cases "k < length (inFlight p)")
  case False
  with assms show ?thesis by (simp add: execReturns_def)
next
  case True
  with assms(1) obtain x where x: "inFlight p = [x]" and k: "k = 0"
    by (cases "inFlight p") auto
  with assms(2) have flag: "isAnalyzing p" by simp
  show ?thesis
    using x k flag
    by (cases x; cases "snd (afterJsonExec e (case x of AwaitJson a w \<Rightarrow> w | AwaitText a w \<Rightarrow> w) r)")
       (auto simp: execReturns_def finish_def updateStatus_def removeAt_single)
qed

lemma reachable_invariant:
  "reachable p \<Longrightarrow> length (inFlight p) \<le> 1 \<and> isAnalyzing p = (inFlight p \<noteq> [])"
proof (induction rule: reachable.induct)
  case reach_init
  show ?case by (simp add: initialPanel_def)
next
  case (reach_refresh p e a)
  then show ?case using refresh_invariant by blast
next
  case (reach_returns p k e r u)
  then show ?case using execReturns_invariant by blast
qed

text \<open>
  C5. In every state that a panel can reach at most one run of \<^verbatim>\<open>refresh\<close> is in
  flight, and the flag \<^verbatim>\<open>_isAnalyzing\<close> is set exactly while one is. A call of
  \<^verbatim>\<open>refresh\<close> while a run is in flight changes nothing: the results, the runs in flight
  and the list of the commands started stay as they are.
\<close>

theorem refresh_while_analyzing:
  assumes "reachable p"
  shows "length (inFlight p) \<le> 1
       \<and> isAnalyzing p = (inFlight p \<noteq> [])
       \<and> (inFlight p \<noteq> []
          \<longrightarrow> refresh e a p = p
            \<and> analysisResults (refresh e a p) = analysisResults p
            \<and> invoked (refresh e a p) = invoked p
            \<and> inFlight (refresh e a p) = inFlight p)"
  using reachable_invariant[OF assms] by (simp add: refresh_def)

theorem refresh_while_analyzing_witness:
  "reachable (refresh \<lparr> e_cwd = js ''/'', e_exec = (\<lambda>c. ExecError), e_parse = (\<lambda>s. None),
                        e_folders = Some [js ''/root''], e_diagnostics = [] \<rparr> Flutter initialPanel)
   \<and> inFlight (refresh \<lparr> e_cwd = js ''/'', e_exec = (\<lambda>c. ExecError), e_parse = (\<lambda>s. None),
                         e_folders = Some [js ''/root''], e_diagnostics = [] \<rparr> Flutter initialPanel)
     = [AwaitJson Flutter (js ''/root'')]
   \<and> refresh \<lparr> e_cwd = js ''/'', e_exec = (\<lambda>c. ExecError), e_parse = (\<lambda>s. None),
                e_folders = None, e_diagnostics = [] \<rparr> Dart
        (refresh \<lparr> e_cwd = js ''/'', e_exec = (\<lambda>c. ExecError), e_parse = (\<lambda>s. None),
                   e_folders = Some [js ''/root''], e_diagnostics = [] \<rparr> Flutter initialPanel)
     = refresh \<lparr> e_cwd = js ''/'', e_exec = (\<lambda>c. ExecError), e_parse = (\<lambda>s. None),
                 e_folders = Some [js ''/root''], e_diagnostics = [] \<rparr> Flutter initialPanel"
proof -
  let ?e = "\<lparr> e_cwd = js ''/'', e_exec = (\<lambda>c. ExecError), e_parse = (\<lambda>s. None),
              e_folders = Some [js ''/root''], e_diagnostics = [] \<rparr>"
  let ?p = "refresh ?e Flutter initialPanel"
  have r: "reachable ?p"
    by (rule reach_refresh) (rule reach_init)
  have f: "inFlight ?p = [AwaitJson Flutter (js ''/root'')]"
    by (simp add: refresh_def initialPanel_def updateStatus_def)
  from refresh_while_analyzing[OF r] r f show ?thesis by simp
qed

section \<open>Sorting with a comparison function\<close>

lemma insertBy_mset: "mset (insertBy cmp x ys) = add_mset x (mset ys)"
  by (induction ys) simp_all

lemma sortBy_mset: "mset (sortBy cmp xs) = mset xs"
  by (induction xs) (simp_all add: sortBy_def insertBy_mset)

lemma sortBy_set: "set (sortBy cmp xs) = set xs"
  using sortBy_mset[of cmp xs] by (metis set_mset_mset)

lemma sortBy_length: "length (sortBy cmp xs) = length xs"
  using sortBy_mset[of cmp xs] by (metis size_mset)

text \<open>
  Under a comparison that is total and transitive on the elements of the list, whatever
  it is elsewhere, the sorted list is in order.
\<close>

lemma insertBy_sorted:
  assumes total: "\<And>a b. a \<in> S \<Longrightarrow> b \<in> S \<Longrightarrow> cmp a b \<le> 0 \<or> cmp b a \<le> 0"
    and trans: "\<And>a b c. a \<in> S \<Longrightarrow> b \<in> S \<Longrightarrow> c \<in> S
                  \<Longrightarrow> cmp a b \<le> 0 \<Longrightarrow> cmp b c \<le> 0 \<Longrightarrow> cmp a c \<le> 0"
    and x: "x \<in> S"
    and ys: "set ys \<subseteq> S"
    and sorted: "sorted_wrt (\<lambda>a b. cmp a b \<le> 0) ys"
  shows "sorted_wrt (\<lambda>a b. cmp a b \<le> 0) (insertBy cmp x ys)"
  using ys sorted
proof (induction ys)
  case Nil
  show ?case by simp
next
  case (Cons y ys)
  show ?case
  proof (cases "cmp x y \<le> 0")
    case True
    have "cmp x z \<le> 0" if "z \<in> set ys" for z
    proof -
      from Cons.prems that have "cmp y z \<le> 0" and "z \<in> S" and "y \<in> S" by auto
      with trans[of x y z] x True show ?thesis by blast
    qed
    with True Cons.prems show ?thesis by auto
  next
    case False
    from Cons.prems have "y \<in> S" by simp
    with total[of x y] x False have "cmp y x \<le> 0" by blast
    moreover have "set (insertBy cmp x ys) = insert x (set ys)"
      using insertBy_mset[of cmp x ys] by (metis set_mset_add_mset_insert set_mset_mset)
    ultimately show ?thesis using False Cons by auto
  qed
qed

lemma sortBy_sorted:
  assumes total: "\<And>a b. a \<in> S \<Longrightarrow> b \<in> S \<Longrightarrow> cmp a b \<le> 0 \<or> cmp b a \<le> 0"
    and trans: "\<And>a b c. a \<in> S \<Longrightarrow> b \<in> S \<Longrightarrow> c \<in> S
                  \<Longrightarrow> cmp a b \<le> 0 \<Longrightarrow> cmp b c \<le> 0 \<Longrightarrow> cmp a c \<le> 0"
    and xs: "set xs \<subseteq> S"
  shows "sorted_wrt (\<lambda>a b. cmp a b \<le> 0) (sortBy cmp xs)"
  using xs
proof (induction xs)
  case Nil
  show ?case by (simp add: sortBy_def)
next
  case (Cons x xs)
  have step: "sortBy cmp (x # xs) = insertBy cmp x (sortBy cmp xs)"
    by (simp add: sortBy_def)
  from Cons.prems have "x \<in> S" and "set (sortBy cmp xs) \<subseteq> S"
    by (simp_all add: sortBy_set)
  moreover from Cons have "sorted_wrt (\<lambda>a b. cmp a b \<le> 0) (sortBy cmp xs)"
    by simp
  ultimately show ?case
    unfolding step using total trans by (rule insertBy_sorted[of S cmp, rotated 2])
qed

section \<open>The comparison of two lines\<close>

lemma compareNumbers_total:
  "compareNumbers x y \<le> 0 \<or> compareNumbers y x \<le> 0"
  by (cases x; cases y) auto

lemma compareNumbers_trans:
  assumes "y \<noteq> NaN" and "compareNumbers x y \<le> 0" and "compareNumbers y z \<le> 0"
  shows "compareNumbers x z \<le> 0"
  using assms by (cases x; cases y; cases z) (auto split: if_splits)

lemma compareNumbers_Fin: "compareNumbers (Fin a) (Fin b) \<le> 0 \<longleftrightarrow> a \<le> b"
  by auto

lemma sortBy_line_sorted:
  assumes "\<forall>i \<in> set xs. lineNumber i \<noteq> NaN"
  shows "sorted_wrt (\<lambda>a b. compareNumbers (lineNumber a) (lineNumber b) \<le> 0)
           (sortBy (\<lambda>a b. compareNumbers (lineNumber a) (lineNumber b)) xs)"
proof (rule sortBy_sorted[of "{i. lineNumber i \<noteq> NaN}"])
  fix a b :: issue
  show "compareNumbers (lineNumber a) (lineNumber b) \<le> 0
        \<or> compareNumbers (lineNumber b) (lineNumber a) \<le> 0"
    by (rule compareNumbers_total)
next
  fix a b c :: issue
  assume "b \<in> {i. lineNumber i \<noteq> NaN}"
    and "compareNumbers (lineNumber a) (lineNumber b) \<le> 0"
    and "compareNumbers (lineNumber b) (lineNumber c) \<le> 0"
  then show "compareNumbers (lineNumber a) (lineNumber c) \<le> 0"
    using compareNumbers_trans[of "lineNumber b" "lineNumber a" "lineNumber c"] by simp
next
  from assms show "set xs \<subseteq> {i. lineNumber i \<noteq> NaN}" by blast
qed

text \<open>
  Where a line is not a number the comparison is not consistent, and the sort can leave a
  greater line before a smaller one: the lines \<open>3\<close>, \<^verbatim>\<open>"x"\<close> and \<open>1\<close> stay as they are,
  each next to a line from which its difference is NaN.
\<close>

lemma sortByLine_not_a_number:
  "sortByLine [i\<lparr> line := JNum 3 \<rparr>, i\<lparr> line := JStr (js ''x'') \<rparr>, i\<lparr> line := JNum 1 \<rparr>]
   = Inr [i\<lparr> line := JNum 3 \<rparr>, i\<lparr> line := JStr (js ''x'') \<rparr>, i\<lparr> line := JNum 1 \<rparr>]"
proof -
  have "stringToNumber (js ''x'') = NaN"
    by (simp add: stringToNumber_def trim_def nonDecimalLiteral_def unsignedDecimalLiteral_def
        isDigit_def isSpace_def isWhiteSpace_def isLineTerminator_def js_def Let_def)
  then show ?thesis
    by (simp add: sortByLine_def sortBy_def lineNumber_def)
qed

lemma doubleNumber_exact: "n < 2 ^ 53 \<Longrightarrow> doubleNumber (of_nat n) = Fin (of_nat n)"
  by (cases "n = 0") (simp_all add: doubleNumber_def roundDouble_exact)

lemma stringToNumber_digits:
  "stringToNumber (js ''9'') = Fin 9" "stringToNumber (js ''10'') = Fin 10"
proof -
  have "doubleNumber (of_nat 9) = Fin (of_nat 9)" "doubleNumber (of_nat 10) = Fin (of_nat 10)"
    by (rule doubleNumber_exact, simp)+
  then have d: "doubleNumber 9 = Fin 9" "doubleNumber 10 = Fin 10"
    by simp_all
  show "stringToNumber (js ''9'') = Fin 9" "stringToNumber (js ''10'') = Fin 10"
    by (simp_all add: stringToNumber_def trim_def nonDecimalLiteral_def unsignedDecimalLiteral_def
        exponentPart_def decimalValue_def pow10_def d
        isDigit_def isSpace_def isWhiteSpace_def isLineTerminator_def js_def Let_def)
qed

text \<open>
  Lines that are strings of digits are compared as the numbers they denote: \<^verbatim>\<open>"9"\<close> goes
  before \<^verbatim>\<open>"10"\<close>.
\<close>

lemma sortByLine_numeric_strings:
  "sortByLine [i\<lparr> line := JStr (js ''10'') \<rparr>, i\<lparr> line := JStr (js ''9'') \<rparr>]
   = Inr [i\<lparr> line := JStr (js ''9'') \<rparr>, i\<lparr> line := JStr (js ''10'') \<rparr>]"
  by (simp add: sortByLine_def sortBy_def lineNumber_def stringToNumber_digits)

lemma sortGroups_returns:
  "sortGroups gs = Inr groups
   \<Longrightarrow> groups = map (\<lambda>(f, fileIssues).
                      (f, sortBy (\<lambda>a b. compareNumbers (lineNumber a) (lineNumber b)) fileIssues)) gs"
proof (induction gs arbitrary: groups)
  case Nil
  then show ?case by simp
next
  case (Cons g gs)
  obtain f fileIssues where g: "g = (f, fileIssues)" by (cases g)
  from Cons.prems obtain sortedIssues rest where
    s: "sortByLine fileIssues = Inr sortedIssues" and r: "sortGroups gs = Inr rest"
    and groups: "groups = (f, sortedIssues) # rest"
    unfolding g by (auto split: sum.splits)
  from s have "sortedIssues = sortBy (\<lambda>a b. compareNumbers (lineNumber a) (lineNumber b)) fileIssues"
    by (simp add: sortByLine_def split: if_splits)
  with Cons.IH[OF r] groups g show ?case by simp
qed

lemma sortGroups_throws:
  "sortGroups gs = Inl TypeError
   \<longleftrightarrow> (\<exists>g \<in> set gs. 2 \<le> length (snd g) \<and> (\<exists>i \<in> set (snd g). throwsToString (line i)))"
proof (induction gs)
  case Nil
  show ?case by simp
next
  case (Cons g gs)
  obtain f fileIssues where g: "g = (f, fileIssues)" by (cases g)
  show ?case
  proof (cases "2 \<le> length fileIssues \<and> (\<exists>i \<in> set fileIssues. throwsToString (line i))")
    case True
    then show ?thesis unfolding g by (auto simp: sortByLine_def)
  next
    case False
    then have "sortGroups (g # gs) = Inl TypeError \<longleftrightarrow> sortGroups gs = Inl TypeError"
      unfolding g by (auto simp: sortByLine_def split: sum.splits)
    with Cons.IH False show ?thesis unfolding g by auto
  qed
qed

section \<open>The file map\<close>

lemma issuesByFile_snoc: "issuesByFile (xs @ [x]) = groupStep (issuesByFile xs) x"
  by (simp add: issuesByFile_def)

lemma groupStep_keys: "map fst (groupStep m i) = (if file i \<in> set (map fst m) then map fst m
                                                  else map fst m @ [file i])"
proof (cases "map_of m (file i)")
  case None
  then have "file i \<notin> set (map fst m)" by (simp add: map_of_eq_None_iff)
  with None show ?thesis by (simp add: groupStep_def)
next
  case (Some v)
  then have "file i \<in> set (map fst m)" by (force dest: map_of_SomeD)
  moreover have "map fst (map (\<lambda>(k, v). if k = file i then (k, v @ [i]) else (k, v)) m) = map fst m"
    by (induction m) auto
  ultimately show ?thesis using Some by (simp add: groupStep_def)
qed

lemma issuesByFile_keys:
  "distinct (map fst (issuesByFile xs)) \<and> set (map fst (issuesByFile xs)) = file ` set xs"
proof (induction xs rule: rev_induct)
  case Nil
  show ?case by (simp add: issuesByFile_def)
next
  case (snoc x xs)
  then show ?case unfolding issuesByFile_snoc groupStep_keys by auto
qed

lemma groupStep_entries:
  assumes "(k, v) \<in> set (groupStep m i)"
  shows "(k \<noteq> file i \<and> (k, v) \<in> set m)
         \<or> (k = file i \<and> (\<exists>w. (k, w) \<in> set m \<and> v = w @ [i]))
         \<or> (k = file i \<and> file i \<notin> set (map fst m) \<and> v = [i])"
proof (cases "map_of m (file i)")
  case None
  then have "file i \<notin> set (map fst m)" by (simp add: map_of_eq_None_iff)
  with None assms show ?thesis by (force simp: groupStep_def)
next
  case (Some w)
  with assms show ?thesis by (auto simp: groupStep_def split: if_splits)
qed

lemma issuesByFile_entries:
  "(k, v) \<in> set (issuesByFile xs) \<Longrightarrow> v = filter (\<lambda>i. file i = k) xs"
proof (induction xs arbitrary: k v rule: rev_induct)
  case Nil
  then show ?case by (simp add: issuesByFile_def)
next
  case (snoc x xs)
  from snoc.prems have "(k, v) \<in> set (groupStep (issuesByFile xs) x)"
    by (simp add: issuesByFile_snoc)
  from groupStep_entries[OF this] consider
      (other) "k \<noteq> file x" "(k, v) \<in> set (issuesByFile xs)"
    | (old) w where "k = file x" "(k, w) \<in> set (issuesByFile xs)" "v = w @ [x]"
    | (new) "k = file x" "file x \<notin> set (map fst (issuesByFile xs))" "v = [x]"
    by blast
  then show ?case
  proof cases
    case other
    from snoc.IH[OF other(2)] other(1) show ?thesis by simp
  next
    case old
    from snoc.IH[OF old(2)] old(1,3) show ?thesis by simp
  next
    case new
    from new(2) issuesByFile_keys[of xs] have "file x \<notin> file ` set xs" by simp
    then have "\<forall>j \<in> set xs. file j \<noteq> file x" by (metis imageI)
    then have "filter (\<lambda>i. file i = file x) xs = []" by (simp add: filter_empty_conv)
    with new(1,3) show ?thesis by simp
  qed
qed

lemma groupStep_concat:
  assumes "distinct (map fst m)"
  shows "mset (concat (map snd (groupStep m i))) = add_mset i (mset (concat (map snd m)))"
proof (cases "map_of m (file i)")
  case None
  then show ?thesis by (simp add: groupStep_def)
next
  case (Some w)
  then have "file i \<in> set (map fst m)" by (force dest: map_of_SomeD)
  with assms
  have "mset (concat (map snd (map (\<lambda>(k, v). if k = file i then (k, v @ [i]) else (k, v)) m)))
        = add_mset i (mset (concat (map snd m)))"
  proof (induction m)
    case Nil
    then show ?case by simp
  next
    case (Cons kv m)
    obtain k v where kv: "kv = (k, v)" by (cases kv)
    show ?case
    proof (cases "k = file i")
      case True
      with Cons.prems kv have "file i \<notin> set (map fst m)" by auto
      then have "map (\<lambda>(k, v). if k = file i then (k, v @ [i]) else (k, v)) m = m"
        by (induction m) auto
      with True kv show ?thesis by simp
    next
      case False
      with Cons kv show ?thesis by auto
    qed
  qed
  with Some show ?thesis by (simp add: groupStep_def)
qed

lemma issuesByFile_concat: "mset (concat (map snd (issuesByFile xs))) = mset xs"
proof (induction xs rule: rev_induct)
  case Nil
  show ?case by (simp add: issuesByFile_def)
next
  case (snoc x xs)
  with groupStep_concat[of "issuesByFile xs" x] issuesByFile_keys[of xs]
  show ?case by (simp add: issuesByFile_snoc)
qed

section \<open>The file groups\<close>

lemma fileGroups_returns:
  assumes "fileGroups lc xs = Inr G"
  shows "G = sortBy (\<lambda>a b. lc (fst a) (fst b))
               (map (\<lambda>(f, fileIssues).
                       (f, sortBy (\<lambda>a b. compareNumbers (lineNumber a) (lineNumber b)) fileIssues))
                    (issuesByFile xs))"
proof -
  from assms obtain groups where s: "sortGroups (issuesByFile xs) = Inr groups"
    and G: "G = sortBy (\<lambda>a b. lc (fst a) (fst b)) groups"
    by (auto simp: fileGroups_def split: sum.splits)
  from sortGroups_returns[OF s] G show ?thesis by simp
qed

text \<open>
  The grouping throws exactly where a file with two issues or more has an issue with a
  line of which the conversion to a number throws.
\<close>

lemma fileGroups_throws:
  "fileGroups lc xs = Inl TypeError
   \<longleftrightarrow> (\<exists>f. 2 \<le> length (filter (\<lambda>i. file i = f) xs)
            \<and> (\<exists>i \<in> set xs. file i = f \<and> throwsToString (line i)))"
proof
  assume "fileGroups lc xs = Inl TypeError"
  then have "sortGroups (issuesByFile xs) = Inl TypeError"
    by (simp add: fileGroups_def split: sum.splits)
  then obtain g i where g: "g \<in> set (issuesByFile xs)" and len: "2 \<le> length (snd g)"
    and i: "i \<in> set (snd g)" and throws: "throwsToString (line i)"
    unfolding sortGroups_throws by blast
  from g have "(fst g, snd g) \<in> set (issuesByFile xs)" by simp
  from issuesByFile_entries[OF this] have v: "snd g = filter (\<lambda>i. file i = fst g) xs" .
  with i have "i \<in> set xs" and "file i = fst g" by simp_all
  with len throws v show "\<exists>f. 2 \<le> length (filter (\<lambda>i. file i = f) xs)
            \<and> (\<exists>i \<in> set xs. file i = f \<and> throwsToString (line i))"
    by (intro exI[of _ "fst g"]) auto
next
  assume "\<exists>f. 2 \<le> length (filter (\<lambda>i. file i = f) xs)
            \<and> (\<exists>i \<in> set xs. file i = f \<and> throwsToString (line i))"
  then obtain f i where len: "2 \<le> length (filter (\<lambda>i. file i = f) xs)"
    and i: "i \<in> set xs" "file i = f" and throws: "throwsToString (line i)"
    by blast
  from i have "f \<in> set (map fst (issuesByFile xs))"
    using issuesByFile_keys[of xs] by blast
  then obtain v where fv: "(f, v) \<in> set (issuesByFile xs)"
    by auto
  from issuesByFile_entries[OF fv] have v: "v = filter (\<lambda>i. file i = f) xs" .
  with i have "i \<in> set v" by simp
  with fv len throws v
  have "\<exists>g \<in> set (issuesByFile xs). 2 \<le> length (snd g) \<and> (\<exists>i \<in> set (snd g). throwsToString (line i))"
    by (intro bexI[of _ "(f, v)"]) auto
  then have "sortGroups (issuesByFile xs) = Inl TypeError"
    unfolding sortGroups_throws .
  then show "fileGroups lc xs = Inl TypeError"
    by (simp add: fileGroups_def)
qed

lemma fileGroups_total: "fileGroups lc xs = Inl TypeError \<or> (\<exists>G. fileGroups lc xs = Inr G)"
proof (cases "fileGroups lc xs")
  case (Inl e)
  then show ?thesis by (cases e) simp
next
  case (Inr G)
  then show ?thesis by simp
qed

lemma fileGroups_mset:
  assumes "fileGroups lc xs = Inr G"
  shows "mset G
   = image_mset (\<lambda>(f, fileIssues).
        (f, sortBy (\<lambda>a b. compareNumbers (lineNumber a) (lineNumber b)) fileIssues))
       (mset (issuesByFile xs))"
  unfolding fileGroups_returns[OF assms] by (simp add: sortBy_mset)

lemma fileGroups_member:
  assumes "fileGroups lc xs = Inr G" and "g \<in> set G"
  shows "snd g = sortBy (\<lambda>a b. compareNumbers (lineNumber a) (lineNumber b))
                   (filter (\<lambda>i. file i = fst g) xs)
         \<and> fst g \<in> file ` set xs"
proof -
  from assms(2) obtain f v where fv: "(f, v) \<in> set (issuesByFile xs)"
    and g: "g = (f, sortBy (\<lambda>a b. compareNumbers (lineNumber a) (lineNumber b)) v)"
    unfolding fileGroups_returns[OF assms(1)] by (auto simp: sortBy_set)
  from fv have "f \<in> set (map fst (issuesByFile xs))" by force
  with issuesByFile_keys[of xs] issuesByFile_entries[OF fv] g show ?thesis by simp
qed

lemma fileGroups_keys_mset:
  assumes "fileGroups lc xs = Inr G"
  shows "mset (map fst G) = mset (map fst (issuesByFile xs))"
proof -
  have "image_mset fst (mset G) = image_mset fst (mset (issuesByFile xs))"
    unfolding fileGroups_mset[OF assms]
    by (simp add: image_mset.compositionality comp_def case_prod_beta)
  then show ?thesis by simp
qed

lemma fileGroups_keys:
  assumes "fileGroups lc xs = Inr G"
  shows "distinct (map fst G) \<and> set (map fst G) = file ` set xs"
  using fileGroups_keys_mset[OF assms] issuesByFile_keys[of xs]
  by (metis mset_eq_imp_distinct_iff mset_eq_setD)

lemma fileGroups_concat:
  assumes "fileGroups lc xs = Inr G"
  shows "mset (concat (map snd G)) = mset xs"
proof -
  have "mset (concat (map snd G)) = (\<Sum>g\<in>#mset G. mset (snd g))"
    by (simp add: mset_concat comp_def flip: sum_mset_sum_list)
  also have "\<dots> = (\<Sum>g\<in>#mset (issuesByFile xs). mset (snd g))"
    unfolding fileGroups_mset[OF assms]
    by (simp add: image_mset.compositionality comp_def case_prod_beta sortBy_mset)
  also have "\<dots> = mset (concat (map snd (issuesByFile xs)))"
    by (simp add: mset_concat comp_def flip: sum_mset_sum_list)
  finally show ?thesis by (simp add: issuesByFile_concat)
qed

lemma fileGroups_sorted:
  assumes "fileGroups lc xs = Inr G"
    and "\<And>a b. lc a b \<le> 0 \<or> lc b a \<le> 0"
    and "\<And>a b c. lc a b \<le> 0 \<Longrightarrow> lc b c \<le> 0 \<Longrightarrow> lc a c \<le> 0"
  shows "sorted_wrt (\<lambda>g h. lc (fst g) (fst h) \<le> 0) G"
  unfolding fileGroups_returns[OF assms(1)]
  by (rule sortBy_sorted[of UNIV "\<lambda>a b. lc (fst a) (fst b)"]) (use assms(2,3) in blast)+

lemma isNumber_line: "isNumber (line i) \<Longrightarrow> \<exists>r. line i = JNum r \<and> lineNumber i = Fin r"
  by (cases "line i") (simp_all add: isNumber_def lineNumber_def)

lemma numbers_sorted:
  assumes "\<forall>i \<in> set xs. isNumber (line i)"
    and "sorted_wrt (\<lambda>a b. compareNumbers (lineNumber a) (lineNumber b) \<le> 0) xs"
  shows "\<exists>rs. map line xs = map JNum rs \<and> sorted rs"
  using assms
proof (induction xs)
  case Nil
  show ?case by simp
next
  case (Cons x xs)
  from Cons.prems(1) isNumber_line[of x] obtain r where r: "line x = JNum r" "lineNumber x = Fin r"
    by auto
  from Cons obtain rs where rs: "map line xs = map JNum rs" "sorted rs"
    by auto
  have "r \<le> q" if "q \<in> set rs" for q
  proof -
    from that have "JNum q \<in> set (map line xs)"
      unfolding rs(1) by simp
    then obtain b where b: "b \<in> set xs" "line b = JNum q"
      by auto
    then have "lineNumber b = Fin q"
      by (simp add: lineNumber_def)
    with Cons.prems(2) b(1) r(2) show ?thesis
      by (auto split: if_splits)
  qed
  with rs r(1) have "map line (x # xs) = map JNum (r # rs) \<and> sorted (r # rs)"
    by simp
  then show ?case by blast
qed

lemma severity_counts:
  "length (errors xs) + length (warnings xs) + (length (infos xs) + length (hints xs)) = length xs"
proof (induction xs)
  case Nil
  show ?case by (simp add: errors_def warnings_def infos_def hints_def)
next
  case (Cons x xs)
  then show ?case
    by (cases "severity x") (simp_all add: errors_def warnings_def infos_def hints_def)
qed

lemma fileGroups_example:
  assumes "0 < lc (js ''b.dart'') (js ''a.dart'')"
  shows "fileGroups lc [i\<lparr> file := js ''b.dart'', line := JNum 5 \<rparr>,
                        i\<lparr> file := js ''a.dart'', line := JNum 3 \<rparr>,
                        i\<lparr> file := js ''a.dart'', line := JNum 1 \<rparr>]
         = Inr [(js ''a.dart'', [i\<lparr> file := js ''a.dart'', line := JNum 1 \<rparr>,
                                 i\<lparr> file := js ''a.dart'', line := JNum 3 \<rparr>]),
                (js ''b.dart'', [i\<lparr> file := js ''b.dart'', line := JNum 5 \<rparr>])]"
proof -
  have ne: "js ''a.dart'' \<noteq> js ''b.dart''"
    by (simp add: js_def)
  have groups: "issuesByFile [i\<lparr> file := js ''b.dart'', line := JNum 5 \<rparr>,
                        i\<lparr> file := js ''a.dart'', line := JNum 3 \<rparr>,
                        i\<lparr> file := js ''a.dart'', line := JNum 1 \<rparr>]
        = [(js ''b.dart'', [i\<lparr> file := js ''b.dart'', line := JNum 5 \<rparr>]),
           (js ''a.dart'', [i\<lparr> file := js ''a.dart'', line := JNum 3 \<rparr>,
                            i\<lparr> file := js ''a.dart'', line := JNum 1 \<rparr>])]"
    using ne by (simp add: issuesByFile_def groupStep_def)
  show ?thesis
    unfolding fileGroups_def groups using assms
    by (simp add: sortByLine_def sortBy_def lineNumber_def)
qed

text \<open>
  C9, as stated, fails. The JSON decoder returns two issues of the file \<^verbatim>\<open>a.dart\<close> for
  the payload
  \<^verbatim>\<open>[{"severity":"error","code":"E1","file":"a.dart","line":1},{"severity":"error","code":"E2","file":"a.dart","line":{"toString":1}}]\<close>,
  the second with the object as its line. Sorting the two by \<^verbatim>\<open>a.line - b.line\<close> converts
  that object to a number, which throws a TypeError: the grouping returns no groups.
\<close>

theorem fileGroups_line_throws:
  "parseJsonOutput (js ''/'')
     (JArr [JObj [(js ''severity'', JStr (js ''error'')), (js ''code'', JStr (js ''E1'')),
                  (js ''file'', JStr (js ''a.dart'')), (js ''line'', JNum 1)],
            JObj [(js ''severity'', JStr (js ''error'')), (js ''code'', JStr (js ''E2'')),
                  (js ''file'', JStr (js ''a.dart'')),
                  (js ''line'', JObj [(js ''toString'', JNum 1)])]])
     (js ''/root'')
   = Inr [\<lparr> severity = Error, code = JStr (js ''E1''), message = JStr [],
            file = js ''a.dart'', line = JNum 1, column = JNum 1 \<rparr>,
          \<lparr> severity = Error, code = JStr (js ''E2''), message = JStr [],
            file = js ''a.dart'', line = JObj [(js ''toString'', JNum 1)], column = JNum 1 \<rparr>]
   \<and> fileGroups (\<lambda>a b. if a < b then - 1 else if a = b then 0 else 1)
       [\<lparr> severity = Error, code = JStr (js ''E1''), message = JStr [],
          file = js ''a.dart'', line = JNum 1, column = JNum 1 \<rparr>,
        \<lparr> severity = Error, code = JStr (js ''E2''), message = JStr [],
          file = js ''a.dart'', line = JObj [(js ''toString'', JNum 1)], column = JNum 1 \<rparr>]
     = Inl TypeError"
proof -
  have "parseJsonOutput (js ''/'')
     (JArr [JObj [(js ''severity'', JStr (js ''error'')), (js ''code'', JStr (js ''E1'')),
                  (js ''file'', JStr (js ''a.dart'')), (js ''line'', JNum 1)],
            JObj [(js ''severity'', JStr (js ''error'')), (js ''code'', JStr (js ''E2'')),
                  (js ''file'', JStr (js ''a.dart'')),
                  (js ''line'', JObj [(js ''toString'', JNum 1)])]])
     (js ''/root'')
   = Inr [\<lparr> severity = Error, code = JStr (js ''E1''), message = JStr [],
            file = js ''a.dart'', line = JNum 1, column = JNum 1 \<rparr>,
          \<lparr> severity = Error, code = JStr (js ''E2''), message = JStr [],
            file = js ''a.dart'', line = JObj [(js ''toString'', JNum 1)], column = JNum 1 \<rparr>]"
    by (simp add: json_eval path_eval mapSeverity_def toLowerCase_def)
  moreover have "fileGroups (\<lambda>a b. if a < b then - 1 else if a = b then 0 else 1)
       [\<lparr> severity = Error, code = JStr (js ''E1''), message = JStr [],
          file = js ''a.dart'', line = JNum 1, column = JNum 1 \<rparr>,
        \<lparr> severity = Error, code = JStr (js ''E2''), message = JStr [],
          file = js ''a.dart'', line = JObj [(js ''toString'', JNum 1)], column = JNum 1 \<rparr>]
     = Inl TypeError"
    by (simp add: fileGroups_def issuesByFile_def groupStep_def sortByLine_def)
  ultimately show ?thesis by (rule conjI)
qed

text \<open>
  C9, amended. Let \<^verbatim>\<open>localeCompare\<close> be a total preorder of the strings, and let every
  line of the issues convert to a number: the conversion does not throw, and the number is
  not NaN. Then the grouping returns; the file groups hold one group for every file of the
  issues and no file twice, the groups are in the order of \<^verbatim>\<open>localeCompare\<close>, and every
  group holds the issues of its file with the numbers of their lines in ascending order,
  which for lines that are numbers is the order of the lines. When \<^verbatim>\<open>b.dart\<close> compares
  greater than \<^verbatim>\<open>a.dart\<close>, issues in \<^verbatim>\<open>b.dart\<close> (line 5) and \<^verbatim>\<open>a.dart\<close> (lines 3 and
  1) give the group of \<^verbatim>\<open>a.dart\<close> with line 1 before line 3, and then the group of
  \<^verbatim>\<open>b.dart\<close>.
\<close>

theorem fileGroups_ordered:
  assumes total: "\<And>a b. lc a b \<le> 0 \<or> lc b a \<le> 0"
    and trans: "\<And>a b c. lc a b \<le> 0 \<Longrightarrow> lc b c \<le> 0 \<Longrightarrow> lc a c \<le> 0"
    and lines: "list_all (\<lambda>i. \<not> throwsToString (line i) \<and> lineNumber i \<noteq> NaN) issues"
  shows "(\<exists>G. fileGroups lc issues = Inr G
            \<and> distinct (map fst G)
            \<and> set (map fst G) = file ` set issues
            \<and> sorted_wrt (\<lambda>g h. lc (fst g) (fst h) \<le> 0) G
            \<and> (\<forall>g \<in> set G.
                  set (snd g) = {i \<in> set issues. file i = fst g}
                  \<and> sorted_wrt (\<lambda>a b. compareNumbers (lineNumber a) (lineNumber b) \<le> 0) (snd g)
                  \<and> ((\<forall>i \<in> set (snd g). isNumber (line i))
                     \<longrightarrow> (\<exists>rs. map line (snd g) = map JNum rs \<and> sorted rs))))
       \<and> (0 < lc (js ''b.dart'') (js ''a.dart'')
          \<longrightarrow> fileGroups lc [i\<lparr> file := js ''b.dart'', line := JNum 5 \<rparr>,
                             i\<lparr> file := js ''a.dart'', line := JNum 3 \<rparr>,
                             i\<lparr> file := js ''a.dart'', line := JNum 1 \<rparr>]
              = Inr [(js ''a.dart'', [i\<lparr> file := js ''a.dart'', line := JNum 1 \<rparr>,
                                      i\<lparr> file := js ''a.dart'', line := JNum 3 \<rparr>]),
                     (js ''b.dart'', [i\<lparr> file := js ''b.dart'', line := JNum 5 \<rparr>])])"
proof -
  from lines have "\<not> (\<exists>f. 2 \<le> length (filter (\<lambda>i. file i = f) issues)
            \<and> (\<exists>i \<in> set issues. file i = f \<and> throwsToString (line i)))"
    by (auto simp: list_all_iff)
  then have "fileGroups lc issues \<noteq> Inl TypeError"
    unfolding fileGroups_throws .
  with fileGroups_total[of lc issues] obtain G where G: "fileGroups lc issues = Inr G"
    by blast
  have groups: "set (snd g) = {i \<in> set issues. file i = fst g}
             \<and> sorted_wrt (\<lambda>a b. compareNumbers (lineNumber a) (lineNumber b) \<le> 0) (snd g)
             \<and> ((\<forall>i \<in> set (snd g). isNumber (line i))
                \<longrightarrow> (\<exists>rs. map line (snd g) = map JNum rs \<and> sorted rs))"
    if g: "g \<in> set G" for g
  proof -
    let ?is = "filter (\<lambda>i. file i = fst g) issues"
    from fileGroups_member[OF G g]
    have snd: "snd g = sortBy (\<lambda>a b. compareNumbers (lineNumber a) (lineNumber b)) ?is"
      by simp
    then have members: "set (snd g) = {i \<in> set issues. file i = fst g}"
      by (simp add: sortBy_set)
    from lines have "\<forall>i \<in> set ?is. lineNumber i \<noteq> NaN"
      by (simp add: list_all_iff)
    then have ascending:
      "sorted_wrt (\<lambda>a b. compareNumbers (lineNumber a) (lineNumber b) \<le> 0) (snd g)"
      unfolding snd by (rule sortBy_line_sorted)
    with numbers_sorted[of "snd g"] members show ?thesis by blast
  qed
  have ordered: "sorted_wrt (\<lambda>g h. lc (fst g) (fst h) \<le> 0) G"
    using G total trans by (rule fileGroups_sorted)
  from G fileGroups_keys[OF G] ordered groups
  have "\<exists>G. fileGroups lc issues = Inr G
            \<and> distinct (map fst G)
            \<and> set (map fst G) = file ` set issues
            \<and> sorted_wrt (\<lambda>g h. lc (fst g) (fst h) \<le> 0) G
            \<and> (\<forall>g \<in> set G.
                  set (snd g) = {i \<in> set issues. file i = fst g}
                  \<and> sorted_wrt (\<lambda>a b. compareNumbers (lineNumber a) (lineNumber b) \<le> 0) (snd g)
                  \<and> ((\<forall>i \<in> set (snd g). isNumber (line i))
                     \<longrightarrow> (\<exists>rs. map line (snd g) = map JNum rs \<and> sorted rs)))"
    by (intro exI[of _ G]) simp
  with fileGroups_example[of lc i] show ?thesis by blast
qed

theorem fileGroups_ordered_witness:
  "list_all (\<lambda>i. \<not> throwsToString (line i) \<and> lineNumber i \<noteq> NaN)
     [\<lparr> severity = Error, code = JStr (js ''c''), message = JStr (js ''m''),
        file = js ''b.dart'', line = JNum 5, column = JNum 1 \<rparr>,
      \<lparr> severity = Error, code = JStr (js ''c''), message = JStr (js ''m''),
        file = js ''a.dart'', line = JNum 3, column = JNum 1 \<rparr>,
      \<lparr> severity = Error, code = JStr (js ''c''), message = JStr (js ''m''),
        file = js ''a.dart'', line = JNum 1, column = JNum 1 \<rparr>]
   \<and> (0::int) < (if js ''b.dart'' < js ''a.dart'' then - 1
                  else if js ''b.dart'' = js ''a.dart'' then 0 else 1)
   \<and> fileGroups (\<lambda>a b. if a < b then - 1 else if a = b then 0 else 1)
       [\<lparr> severity = Error, code = JStr (js ''c''), message = JStr (js ''m''),
          file = js ''b.dart'', line = JNum 5, column = JNum 1 \<rparr>,
        \<lparr> severity = Error, code = JStr (js ''c''), message = JStr (js ''m''),
          file = js ''a.dart'', line = JNum 3, column = JNum 1 \<rparr>,
        \<lparr> severity = Error, code = JStr (js ''c''), message = JStr (js ''m''),
          file = js ''a.dart'', line = JNum 1, column = JNum 1 \<rparr>]
     = Inr [(js ''a.dart'',
             [\<lparr> severity = Error, code = JStr (js ''c''), message = JStr (js ''m''),
                file = js ''a.dart'', line = JNum 1, column = JNum 1 \<rparr>,
              \<lparr> severity = Error, code = JStr (js ''c''), message = JStr (js ''m''),
                file = js ''a.dart'', line = JNum 3, column = JNum 1 \<rparr>]),
            (js ''b.dart'',
             [\<lparr> severity = Error, code = JStr (js ''c''), message = JStr (js ''m''),
                file = js ''b.dart'', line = JNum 5, column = JNum 1 \<rparr>])]"
proof -
  let ?lc = "\<lambda>(a::jsstring) b. if a < b then - 1 else if a = b then 0 else (1::int)"
  let ?i = "\<lparr> severity = Error, code = JStr (js ''c''), message = JStr (js ''m''),
              file = js ''b.dart'', line = JNum 5, column = JNum 1 \<rparr>"
  let ?issues = "[?i, ?i\<lparr> file := js ''a.dart'', line := JNum 3 \<rparr>,
                  ?i\<lparr> file := js ''a.dart'', line := JNum 1 \<rparr>]"
  have total: "\<And>a b. ?lc a b \<le> 0 \<or> ?lc b a \<le> 0"
    by auto
  have trans: "\<And>a b c. ?lc a b \<le> 0 \<Longrightarrow> ?lc b c \<le> 0 \<Longrightarrow> ?lc a c \<le> 0"
    by (auto split: if_splits)
  have lines: "list_all (\<lambda>i. \<not> throwsToString (line i) \<and> lineNumber i \<noteq> NaN) ?issues"
    by (simp add: lineNumber_def)
  have less: "(0::int) < ?lc (js ''b.dart'') (js ''a.dart'')"
    by (simp add: js_def)
  have "0 < ?lc (js ''b.dart'') (js ''a.dart'')
          \<longrightarrow> fileGroups ?lc ?issues
              = Inr [(js ''a.dart'', [?i\<lparr> file := js ''a.dart'', line := JNum 1 \<rparr>,
                                      ?i\<lparr> file := js ''a.dart'', line := JNum 3 \<rparr>]),
                     (js ''b.dart'', [?i\<lparr> file := js ''b.dart'', line := JNum 5 \<rparr>])]"
    using fileGroups_ordered[of ?lc ?issues ?i] total trans lines by simp
  with less lines show ?thesis by simp
qed

text \<open>
  C10, as stated, fails. The JSON decoder returns two issues of the file \<^verbatim>\<open>lib/a.dart\<close>
  for the payload
  \<^verbatim>\<open>{"diagnostics":[{"severity":"warning","code":"W1","file":"lib/a.dart","line":{"toString":"7"}},{"severity":"info","code":"I1","file":"lib/a.dart","line":2}]}\<close>,
  and the grouping of the two throws a TypeError where it sorts them by line: there are no
  groups for the issues to appear in.
\<close>

theorem fileGroups_no_partition:
  "parseJsonOutput (js ''/'')
     (JObj [(js ''diagnostics'',
             JArr [JObj [(js ''severity'', JStr (js ''warning'')), (js ''code'', JStr (js ''W1'')),
                         (js ''file'', JStr (js ''lib/a.dart'')),
                         (js ''line'', JObj [(js ''toString'', JStr (js ''7''))])],
                   JObj [(js ''severity'', JStr (js ''info'')), (js ''code'', JStr (js ''I1'')),
                         (js ''file'', JStr (js ''lib/a.dart'')), (js ''line'', JNum 2)]])])
     (js ''/root'')
   = Inr [\<lparr> severity = Warning, code = JStr (js ''W1''), message = JStr [],
            file = js ''lib/a.dart'', line = JObj [(js ''toString'', JStr (js ''7''))],
            column = JNum 1 \<rparr>,
          \<lparr> severity = Info, code = JStr (js ''I1''), message = JStr [],
            file = js ''lib/a.dart'', line = JNum 2, column = JNum 1 \<rparr>]
   \<and> fileGroups (\<lambda>a b. if a < b then - 1 else if a = b then 0 else 1)
       [\<lparr> severity = Warning, code = JStr (js ''W1''), message = JStr [],
          file = js ''lib/a.dart'', line = JObj [(js ''toString'', JStr (js ''7''))],
          column = JNum 1 \<rparr>,
        \<lparr> severity = Info, code = JStr (js ''I1''), message = JStr [],
          file = js ''lib/a.dart'', line = JNum 2, column = JNum 1 \<rparr>]
     = Inl TypeError"
proof -
  have "parseJsonOutput (js ''/'')
     (JObj [(js ''diagnostics'',
             JArr [JObj [(js ''severity'', JStr (js ''warning'')), (js ''code'', JStr (js ''W1'')),
                         (js ''file'', JStr (js ''lib/a.dart'')),
                         (js ''line'', JObj [(js ''toString'', JStr (js ''7''))])],
                   JObj [(js ''severity'', JStr (js ''info'')), (js ''code'', JStr (js ''I1'')),
                         (js ''file'', JStr (js ''lib/a.dart'')), (js ''line'', JNum 2)]])])
     (js ''/root'')
   = Inr [\<lparr> severity = Warning, code = JStr (js ''W1''), message = JStr [],
            file = js ''lib/a.dart'', line = JObj [(js ''toString'', JStr (js ''7''))],
            column = JNum 1 \<rparr>,
          \<lparr> severity = Info, code = JStr (js ''I1''), message = JStr [],
            file = js ''lib/a.dart'', line = JNum 2, column = JNum 1 \<rparr>]"
    by (simp add: json_eval path_eval mapSeverity_def toLowerCase_def)
  moreover have "fileGroups (\<lambda>a b. if a < b then - 1 else if a = b then 0 else 1)
       [\<lparr> severity = Warning, code = JStr (js ''W1''), message = JStr [],
          file = js ''lib/a.dart'', line = JObj [(js ''toString'', JStr (js ''7''))],
          column = JNum 1 \<rparr>,
        \<lparr> severity = Info, code = JStr (js ''I1''), message = JStr [],
          file = js ''lib/a.dart'', line = JNum 2, column = JNum 1 \<rparr>]
     = Inl TypeError"
    by (simp add: fileGroups_def issuesByFile_def groupStep_def sortByLine_def)
  ultimately show ?thesis by (rule conjI)
qed

text \<open>
  C10, amended. The file map and the counts of the summary are a partition of the issues,
  and so are the file groups whenever the grouping returns them. The map holds the issues
  with their multiplicities, no file twice, and under every file exactly the issues of
  that file. The grouping throws a TypeError exactly where some file has two issues or
  more and one of them has a line of which the conversion to a number throws, and returns
  the groups otherwise. The groups it returns together hold the issues with their
  multiplicities, every group holds exactly the issues of its file, no file has two
  groups, every issue has the group of its file, and the sizes of the groups add up to the
  number of issues. The three counts of the summary add up to the number of issues, and
  their severities exclude each other.
\<close>

theorem fileGroups_partition:
  "mset (concat (map snd (issuesByFile issues))) = mset issues
   \<and> distinct (map fst (issuesByFile issues))
   \<and> (\<forall>g \<in> set (issuesByFile issues). snd g = filter (\<lambda>i. file i = fst g) issues)
   \<and> (fileGroups lc issues = Inl TypeError
        \<longleftrightarrow> (\<exists>f. 2 \<le> length (filter (\<lambda>i. file i = f) issues)
                 \<and> (\<exists>i \<in> set issues. file i = f \<and> throwsToString (line i))))
   \<and> (fileGroups lc issues = Inl TypeError \<or> (\<exists>groups. fileGroups lc issues = Inr groups))
   \<and> (fileGroups lc issues = Inr G
        \<longrightarrow> mset (concat (map snd G)) = mset issues
          \<and> distinct (map fst G)
          \<and> (\<forall>g \<in> set G. mset (snd g) = mset (filter (\<lambda>i. file i = fst g) issues))
          \<and> (\<forall>i \<in> set issues. \<exists>g \<in> set G. fst g = file i)
          \<and> sum_list (map (\<lambda>g. length (snd g)) G) = length issues)
   \<and> summary issues
      = (length (errors issues), length (warnings issues),
         length (infos issues) + length (hints issues))
   \<and> length (errors issues) + length (warnings issues)
        + (length (infos issues) + length (hints issues)) = length issues
   \<and> set (errors issues) \<inter> set (warnings issues) = {}
   \<and> set (errors issues) \<inter> (set (infos issues) \<union> set (hints issues)) = {}
   \<and> set (warnings issues) \<inter> (set (infos issues) \<union> set (hints issues)) = {}
   \<and> set (infos issues) \<inter> set (hints issues) = {}"
proof -
  have entries: "\<forall>g \<in> set (issuesByFile issues). snd g = filter (\<lambda>i. file i = fst g) issues"
  proof
    fix g assume "g \<in> set (issuesByFile issues)"
    then have "(fst g, snd g) \<in> set (issuesByFile issues)" by simp
    then show "snd g = filter (\<lambda>i. file i = fst g) issues" by (rule issuesByFile_entries)
  qed
  have returned: "mset (concat (map snd G)) = mset issues
          \<and> distinct (map fst G)
          \<and> (\<forall>g \<in> set G. mset (snd g) = mset (filter (\<lambda>i. file i = fst g) issues))
          \<and> (\<forall>i \<in> set issues. \<exists>g \<in> set G. fst g = file i)
          \<and> sum_list (map (\<lambda>g. length (snd g)) G) = length issues"
    if G: "fileGroups lc issues = Inr G"
  proof -
    have all: "mset (concat (map snd G)) = mset issues"
      using G by (rule fileGroups_concat)
    have each: "\<forall>g \<in> set G. mset (snd g) = mset (filter (\<lambda>i. file i = fst g) issues)"
      using fileGroups_member[OF G] by (simp add: sortBy_mset)
    have covered: "\<forall>i \<in> set issues. \<exists>g \<in> set G. fst g = file i"
    proof
      fix i assume "i \<in> set issues"
      then have "file i \<in> fst ` set G"
        using fileGroups_keys[OF G] by simp
      then obtain g where "g \<in> set G" and "file i = fst g"
        by (rule imageE)
      then show "\<exists>g \<in> set G. fst g = file i"
        by (intro bexI[of _ g]) simp_all
    qed
    have "length (concat (map snd G)) = length issues"
      using all by (metis size_mset)
    then have sizes: "sum_list (map (\<lambda>g. length (snd g)) G) = length issues"
      by (simp add: length_concat comp_def)
    from all each covered sizes fileGroups_keys[OF G] show ?thesis by simp
  qed
  have buckets: "set (errors issues) \<inter> set (warnings issues) = {}"
    "set (errors issues) \<inter> (set (infos issues) \<union> set (hints issues)) = {}"
    "set (warnings issues) \<inter> (set (infos issues) \<union> set (hints issues)) = {}"
    "set (infos issues) \<inter> set (hints issues) = {}"
    by (auto simp: errors_def warnings_def infos_def hints_def)
  have counts: "summary issues
      = (length (errors issues), length (warnings issues),
         length (infos issues) + length (hints issues))"
    by (simp add: summary_def)
  from issuesByFile_concat[of issues] issuesByFile_keys[of issues] entries
    fileGroups_throws[of lc issues] fileGroups_total[of lc issues] returned
    counts severity_counts[of issues] buckets
  show ?thesis by blast
qed

theorem fileGroups_partition_witness:
  "fileGroups (\<lambda>a b. if a < b then - 1 else if a = b then 0 else 1)
       [\<lparr> severity = Error, code = JStr (js ''c''), message = JStr (js ''m''),
          file = js ''b.dart'', line = JNum 5, column = JNum 1 \<rparr>,
        \<lparr> severity = Hint, code = JStr (js ''c''), message = JStr (js ''m''),
          file = js ''a.dart'', line = JNum 3, column = JNum 1 \<rparr>]
   = Inr [(js ''a.dart'',
           [\<lparr> severity = Hint, code = JStr (js ''c''), message = JStr (js ''m''),
              file = js ''a.dart'', line = JNum 3, column = JNum 1 \<rparr>]),
          (js ''b.dart'',
           [\<lparr> severity = Error, code = JStr (js ''c''), message = JStr (js ''m''),
              file = js ''b.dart'', line = JNum 5, column = JNum 1 \<rparr>])]
   \<and> mset (concat (map snd
       [(js ''a.dart'',
         [\<lparr> severity = Hint, code = JStr (js ''c''), message = JStr (js ''m''),
            file = js ''a.dart'', line = JNum 3, column = JNum 1 \<rparr>]),
        (js ''b.dart'',
         [\<lparr> severity = Error, code = JStr (js ''c''), message = JStr (js ''m''),
            file = js ''b.dart'', line = JNum 5, column = JNum 1 \<rparr>])]))
     = mset [\<lparr> severity = Error, code = JStr (js ''c''), message = JStr (js ''m''),
               file = js ''b.dart'', line = JNum 5, column = JNum 1 \<rparr>,
             \<lparr> severity = Hint, code = JStr (js ''c''), message = JStr (js ''m''),
               file = js ''a.dart'', line = JNum 3, column = JNum 1 \<rparr>]
   \<and> summary [\<lparr> severity = Error, code = JStr (js ''c''), message = JStr (js ''m''),
                 file = js ''b.dart'', line = JNum 5, column = JNum 1 \<rparr>,
               \<lparr> severity = Hint, code = JStr (js ''c''), message = JStr (js ''m''),
                 file = js ''a.dart'', line = JNum 3, column = JNum 1 \<rparr>] = (1, 0, 1)"
proof -
  let ?lc = "\<lambda>(a::jsstring) b. if a < b then - 1 else if a = b then 0 else (1::int)"
  let ?e = "\<lparr> severity = Error, code = JStr (js ''c''), message = JStr (js ''m''),
              file = js ''b.dart'', line = JNum 5, column = JNum 1 \<rparr>"
  let ?h = "\<lparr> severity = Hint, code = JStr (js ''c''), message = JStr (js ''m''),
              file = js ''a.dart'', line = JNum 3, column = JNum 1 \<rparr>"
  let ?G = "[(js ''a.dart'', [?h]), (js ''b.dart'', [?e])]"
  have ne: "js ''b.dart'' \<noteq> js ''a.dart''" and less: "\<not> js ''b.dart'' < js ''a.dart''"
    by (simp_all add: js_def)
  have groups: "issuesByFile [?e, ?h] = [(js ''b.dart'', [?e]), (js ''a.dart'', [?h])]"
    using ne by (simp add: issuesByFile_def groupStep_def)
  have G: "fileGroups ?lc [?e, ?h] = Inr ?G"
    unfolding fileGroups_def groups using ne less
    by (simp add: sortByLine_def sortBy_def)
  have counts: "length (errors [?e, ?h]) = 1" "length (warnings [?e, ?h]) = 0"
    "length (infos [?e, ?h]) + length (hints [?e, ?h]) = 1"
    by (simp_all add: errors_def warnings_def infos_def hints_def)
  from fileGroups_partition[of "[?e, ?h]" ?lc ?G] G
  have "mset (concat (map snd ?G)) = mset [?e, ?h] \<and> summary [?e, ?h] = (1, 0, 1)"
    unfolding counts by blast
  with G show ?thesis by blast
qed

end
